theory Spec2Isabelle
  imports Main
begin

section \<open>The Ginkgo test tree data provider\<close>

text \<open>
  A shallow embedding of the class \<^verbatim>\<open>GinkgoTestTreeDataProvider\<close>. The nodes of the
  outline are JavaScript objects that the provider shares between the discovered list,
  the key index and the child arrays of other nodes, and mutates in place. They are
  therefore kept in an explicit store: a node is referred to by its address, and the
  store maps every address to the current contents of the object.
\<close>

subsection \<open>Data model\<close>

type_synonym addr = nat

text \<open>
  Modelled from the spec: the interface \<^verbatim>\<open>TestResult\<close> of \<^verbatim>\<open>./testResult\<close>, which is
  imported by the provider but is not among the sources. The fields are the ones the
  provider reads (\<^verbatim>\<open>testName\<close>, \<^verbatim>\<open>isPassed\<close>, and \<^verbatim>\<open>output\<close>, here \<open>result_output\<close>).
\<close>

record testResult =
  testName :: string
  isPassed :: bool
  result_output :: "string option"

text \<open>
  Modelled from the spec: the interface \<^verbatim>\<open>GinkgoNode\<close> of \<^verbatim>\<open>./ginkgoNode\<close>, which is
  imported by the provider but is not among the sources. The fields are the ones the
  provider reads and writes: \<^verbatim>\<open>key\<close>, \<^verbatim>\<open>name\<close>, \<^verbatim>\<open>text\<close> (here \<open>node_text\<close>),
  \<^verbatim>\<open>start\<close>, \<^verbatim>\<open>end\<close> (here \<open>node_end\<close>), \<^verbatim>\<open>spec\<close> (here \<open>is_spec\<close>), \<^verbatim>\<open>focused\<close>,
  \<^verbatim>\<open>running\<close>, \<^verbatim>\<open>result\<close> and the child array \<^verbatim>\<open>nodes\<close>, whose elements are
  references to other node objects.
\<close>

record ginkgoNode =
  key :: string
  name :: string
  node_text :: string
  start :: int
  node_end :: int
  is_spec :: bool
  focused :: bool
  running :: bool
  result :: "testResult option"
  nodes :: "addr list"

text \<open>The parts of \<^verbatim>\<open>vscode.TextDocument\<close> and \<^verbatim>\<open>vscode.TextEditor\<close> that the provider reads.\<close>

record textDocument =
  uri :: string
  languageId :: string

record textEditor =
  document :: textDocument
  viewColumn :: "nat option"

text \<open>
  A \<^verbatim>\<open>vscode.TextDocumentChangeEvent\<close>: the document and the list of content changes,
  of which the provider only reads the length.
\<close>

record changeEvent =
  evt_document :: textDocument
  contentChanges :: "string list"

datatype UpdateOn = onSave | onType

text \<open>
  Everything the provider does to its collaborators, in the order it happens:
  \<^verbatim>\<open>_onDidChangeTreeData.fire\<close> (scoped to a node, or unscoped for \<^verbatim>\<open>undefined\<close>),
  \<^verbatim>\<open>commands.sendTestRunStarted\<close>, the three calls into \<^verbatim>\<open>editorUtil\<close>,
  \<^verbatim>\<open>vscode.commands.executeCommand\<close>, and the output channel and error message of the
  failing read.
\<close>

datatype effect =
    TreeChanged "addr option"
  | SendTestRunStarted addr
  | HighlightNode textEditor addr
  | SetSelectionToNodeStart textEditor addr
  | HighlightOff textEditor
  | ExecuteCommand string
  | OutputAppendLine string
  | ShowErrorMessage string "string list"
  | OutputShow

text \<open>
  The state: the private fields of the class that its handlers read or write
  (\<open>updateListener\<close> records which of the two document listeners is registered), followed
  by the part of the world the class acts on: the object store \<open>heap\<close>, the clock read by \<^verbatim>\<open>Date.now()\<close> (milliseconds),
  the timers set by \<^verbatim>\<open>setTimeout\<close> and not yet fired or cleared (handle and due time),
  the next fresh timer handle, and the log of effects.
\<close>

record provider =
  updateListener :: "UpdateOn option"
  editor :: "textEditor option"
  roots :: "addr list"
  discoveredTestsMap :: "string \<Rightarrow> addr option"
  discoveredTests :: "addr list"
  rootNode :: "addr option"
  lastClickedNode :: "addr option"
  lastClickedTime :: "int option"
  documentChangedTimer :: "nat option"
  updateOnTypeDelay :: int
  doubleClickThreshold :: int
  heap :: "addr \<Rightarrow> ginkgoNode"
  clock :: int
  pending :: "(nat \<times> int) list"
  nextTimer :: nat
  effects :: "effect list"

subsection \<open>The platform: events and timers\<close>

definition fire :: "provider \<Rightarrow> addr option \<Rightarrow> provider" where
  "fire s n = s\<lparr>effects := effects s @ [TreeChanged n]\<rparr>"

definition emit :: "provider \<Rightarrow> effect \<Rightarrow> provider" where
  "emit s e = s\<lparr>effects := effects s @ [e]\<rparr>"

text \<open>
  \<^verbatim>\<open>setTimeout(cb, d)\<close> registers a timer and returns its handle; \<^verbatim>\<open>clearTimeout(h)\<close>
  removes it. The extension runs on Node, whose \<^verbatim>\<open>setTimeout\<close> sets the delay to \<open>1\<close> when
  it is less than \<open>1\<close> or larger than \<open>2147483647\<close>: \<open>timeoutDelay d\<close> is the delay that
  is used for the argument \<open>d\<close>, and the timer is due that many milliseconds from now. The
  only callback the provider ever registers is
  \<^verbatim>\<open>() => this._onDidChangeTreeData.fire(undefined)\<close>, so a pending timer needs no callback
  component. The timers are idealised in one respect: a timer fires as soon as the clock
  reaches its due time.
\<close>

definition timeoutDelay :: "int \<Rightarrow> int" where
  "timeoutDelay d = (if d < 1 \<or> 2147483647 < d then 1 else d)"

definition setTimeout :: "int \<Rightarrow> provider \<Rightarrow> nat \<times> provider" where
  "setTimeout d s =
     (nextTimer s,
      s\<lparr>pending := pending s @ [(nextTimer s, clock s + timeoutDelay d)],
        nextTimer := Suc (nextTimer s)\<rparr>)"

definition clearTimeout :: "nat \<Rightarrow> provider \<Rightarrow> provider" where
  "clearTimeout h s = s\<lparr>pending := filter (\<lambda>p. fst p \<noteq> h) (pending s)\<rparr>"

definition fireTimer :: "provider \<Rightarrow> nat \<times> int \<Rightarrow> provider" where
  "fireTimer s p = fire (s\<lparr>pending := filter (\<lambda>q. fst q \<noteq> fst p) (pending s)\<rparr>) None"

text \<open>
  Letting \<open>n\<close> milliseconds pass: the timers that fall due fire in the order of their
  due times, and the clock moves on.
\<close>

definition advance :: "nat \<Rightarrow> provider \<Rightarrow> provider" where
  "advance n s =
     (foldl fireTimer s (sort_key snd (filter (\<lambda>p. snd p \<le> clock s + int n) (pending s))))
       \<lparr>clock := clock s + int n\<rparr>"

subsection \<open>Configuration\<close>

definition setUpdateOn :: "provider \<Rightarrow> UpdateOn \<Rightarrow> provider" where
  "setUpdateOn s u = s\<lparr>updateListener := Some u\<rparr>"

definition setUpdateOnTypeDelay :: "provider \<Rightarrow> int \<Rightarrow> provider" where
  "setUpdateOnTypeDelay s d = s\<lparr>updateOnTypeDelay := max d 0\<rparr>"

definition setDoubleClickThreshold :: "provider \<Rightarrow> int \<Rightarrow> provider" where
  "setDoubleClickThreshold s d = s\<lparr>doubleClickThreshold := max d 0\<rparr>"

subsection \<open>Run requests\<close>

definition onTestRunStarted :: "provider \<Rightarrow> addr \<Rightarrow> provider" where
  "onTestRunStarted s testNode =
     fire (s\<lparr>heap := (heap s)(testNode := (heap s testNode)\<lparr>running := True\<rparr>)\<rparr>) (Some testNode)"

text \<open>
  Modelled from the spec: \<^verbatim>\<open>Commands.sendTestRunStarted\<close> of \<^verbatim>\<open>./commands\<close>, which is
  not among the sources. The constructor subscribes \<^verbatim>\<open>onTestRunStarted\<close> to the
  run-started event of the same \<^verbatim>\<open>Commands\<close> object, and the spec has the run-started
  signal mark the node as running; the signal is logged and delivered to that
  subscriber at once.
\<close>

definition sendTestRunStarted :: "provider \<Rightarrow> addr \<Rightarrow> provider" where
  "sendTestRunStarted s n = onTestRunStarted (emit s (SendTestRunStarted n)) n"

text \<open>
  \<^verbatim>\<open>prepareToRunTest\<close> calls itself on every child of every discovered node that has
  the key of its argument. Nothing in the code bounds this recursion (a node that is
  its own child would recurse for ever), so the model takes fuel, one unit for each
  nested call, and returns \<open>None\<close> when it runs out.
\<close>

fun prepareToRunTest :: "nat \<Rightarrow> provider \<Rightarrow> addr \<Rightarrow> provider option"
  and forEach_matched :: "nat \<Rightarrow> provider \<Rightarrow> addr list \<Rightarrow> provider option"
  and forEach_child :: "nat \<Rightarrow> provider \<Rightarrow> addr list \<Rightarrow> provider option"
where
  "prepareToRunTest 0 s node = None"
| "prepareToRunTest (Suc f) s node =
     forEach_matched f s
       (filter (\<lambda>test. key (heap s test) = key (heap s node)) (discoveredTests s))"
| "forEach_matched f s [] = Some s"
| "forEach_matched f s (n # ns) =
     (case forEach_child f (sendTestRunStarted s n) (nodes (heap (sendTestRunStarted s n) n)) of
        None \<Rightarrow> None
      | Some s' \<Rightarrow> forEach_matched f s' ns)"
| "forEach_child f s [] = Some s"
| "forEach_child f s (c # cs) =
     (case prepareToRunTest f s c of
        None \<Rightarrow> None
      | Some s' \<Rightarrow> forEach_child f s' cs)"

subsection \<open>Editor and document events\<close>

definition isMainEditor :: "textEditor \<Rightarrow> bool" where
  "isMainEditor e = (viewColumn e \<noteq> None)"

definition onActiveEditorChanged :: "provider \<Rightarrow> textEditor option \<Rightarrow> provider" where
  "onActiveEditorChanged s e =
     (case e of
        Some ed \<Rightarrow>
          if \<not> isMainEditor ed then s
          else fire (s\<lparr>editor := e, roots := []\<rparr>) None
      | None \<Rightarrow> fire (s\<lparr>editor := e, roots := []\<rparr>) None)"

definition isDocumentForActiveEditor :: "provider \<Rightarrow> textDocument \<Rightarrow> bool" where
  "isDocumentForActiveEditor s doc =
     (case editor s of
        None \<Rightarrow> False
      | Some ed \<Rightarrow> uri (document ed) = uri doc)"

definition onDocumentChanged :: "provider \<Rightarrow> changeEvent \<Rightarrow> provider" where
  "onDocumentChanged s evt =
     (if \<not> isDocumentForActiveEditor s (evt_document evt) then s
      else if length (contentChanges evt) = 0 then s
      else
        let s1 = s\<lparr>roots := []\<rparr>;
            s2 = (case documentChangedTimer s1 of
                    Some h \<Rightarrow> (clearTimeout h s1)\<lparr>documentChangedTimer := None\<rparr>
                  | None \<Rightarrow> s1);
            (h, s3) = setTimeout (updateOnTypeDelay s2) s2
        in s3\<lparr>documentChangedTimer := Some h\<rparr>)"

definition onDocumentSaved :: "provider \<Rightarrow> textDocument \<Rightarrow> provider" where
  "onDocumentSaved s doc =
     (if \<not> isDocumentForActiveEditor s doc then s
      else fire (s\<lparr>roots := []\<rparr>) None)"

text \<open>
  \<^verbatim>\<open>setUpdateOn\<close> registers \<^verbatim>\<open>onDocumentChanged\<close> for the mode \<^verbatim>\<open>onType\<close> and
  \<^verbatim>\<open>onDocumentSaved\<close> for the mode \<^verbatim>\<open>onSave\<close>, after disposing of the listener that was
  registered before. A document event of the workspace therefore reaches the handler
  only when its listener is the registered one.
\<close>

definition documentChanged :: "provider \<Rightarrow> changeEvent \<Rightarrow> provider" where
  "documentChanged s evt = (if updateListener s = Some onType then onDocumentChanged s evt else s)"

definition documentSaved :: "provider \<Rightarrow> textDocument \<Rightarrow> provider" where
  "documentSaved s doc = (if updateListener s = Some onSave then onDocumentSaved s doc else s)"

text \<open>
  A burst of document-changed events: each element is the time that passes before the
  event arrives (in milliseconds) and the event.
\<close>

fun typing :: "provider \<Rightarrow> (nat \<times> changeEvent) list \<Rightarrow> provider" where
  "typing s [] = s"
| "typing s (ge # rest) = typing (documentChanged (advance (fst ge) s) (snd ge)) rest"

subsection \<open>Reading the tree\<close>

text \<open>
  \<^verbatim>\<open>getChildren\<close> awaits the outline parser \<^verbatim>\<open>outlineFromDoc\<close>, a constructor argument of
  the class: it either fails with an error (\<open>Inl\<close>, the error as the string that
  \<^verbatim>\<open>${err}\<close> prints) or yields the nested outline (\<open>Inr\<close>, the root-level nodes of
  \<^verbatim>\<open>outline.nested\<close>). \<open>goLanguage\<close> stands for the constant \<^verbatim>\<open>GO_MODE.language\<close> of
  \<^verbatim>\<open>./ginkgoTestExplorer\<close>, which is not among the sources. The read is modelled as one
  step: nothing else runs between the call of the parser and its answer. The value
  returned is \<open>None\<close> for \<^verbatim>\<open>undefined\<close>.
\<close>

definition notGoLine :: "string \<Rightarrow> string" where
  "notGoLine u =
     ''Did not populate outline view: document '' @ [CHR 0x22] @ u @ [CHR 0x22]
       @ '' language is not Go.''"

definition parseFailed :: "provider \<Rightarrow> string \<Rightarrow> provider" where
  "parseFailed s err =
     emit (emit s (OutputAppendLine (''Could not populate the outline view: '' @ err)))
       (ShowErrorMessage ''Could not populate the outline view'' [''Open Log''])"

definition childrenOf :: "provider \<Rightarrow> addr option \<Rightarrow> addr list" where
  "childrenOf s element = (case element of None \<Rightarrow> roots s | Some el \<Rightarrow> nodes (heap s el))"

definition getChildren ::
  "(textDocument \<Rightarrow> string + addr list) \<Rightarrow> string \<Rightarrow> provider \<Rightarrow> addr option
     \<Rightarrow> addr list option \<times> provider" where
  "getChildren outlineFromDoc goLanguage s element =
     (case editor s of
        None \<Rightarrow> (None, s)
      | Some ed \<Rightarrow>
          if languageId (document ed) \<noteq> goLanguage
          then (None, emit s (OutputAppendLine (notGoLine (uri (document ed)))))
          else if length (roots s) = 0
          then (case outlineFromDoc (document ed) of
                  Inr nested \<Rightarrow>
                    (Some (childrenOf (s\<lparr>roots := nested\<rparr>) element), s\<lparr>roots := nested\<rparr>)
                | Inl err \<Rightarrow> (None, parseFailed s err))
          else (Some (childrenOf s element), s))"

text \<open>The continuation of the error message: the button the user chose, if any.\<close>

definition onErrorMessageAction :: "provider \<Rightarrow> string option \<Rightarrow> provider" where
  "onErrorMessageAction s action = (if action = Some ''Open Log'' then emit s OutputShow else s)"

subsection \<open>Clicks\<close>

definition wasRecentlyClicked :: "int \<Rightarrow> ginkgoNode \<Rightarrow> int \<Rightarrow> ginkgoNode \<Rightarrow> int \<Rightarrow> bool" where
  "wasRecentlyClicked threshold lastNode lastTime currentNode currentTime =
     (let isSameNode = (start lastNode = start currentNode \<and> node_end lastNode = node_end currentNode);
          recently = (currentTime - lastTime < threshold)
      in isSameNode \<and> recently)"

text \<open>
  The guard \<^verbatim>\<open>this.lastClickedTime && this.lastClickedNode\<close> tests the truthiness of a
  number and of an object: it fails when a field is \<^verbatim>\<open>undefined\<close>, and also when the
  recorded time is \<open>0\<close>.
\<close>

definition clickTreeItem :: "provider \<Rightarrow> addr \<Rightarrow> provider" where
  "clickTreeItem s element =
     (case editor s of
        None \<Rightarrow> s
      | Some ed \<Rightarrow>
          let now = clock s;
              recentlyClicked =
                (case lastClickedTime s of
                   None \<Rightarrow> False
                 | Some t \<Rightarrow>
                     (case lastClickedNode s of
                        None \<Rightarrow> False
                      | Some l \<Rightarrow>
                          if t = 0 then False
                          else wasRecentlyClicked (doubleClickThreshold s) (heap s l) t
                                 (heap s element) now));
              s1 = s\<lparr>lastClickedTime := Some now, lastClickedNode := Some element\<rparr>
          in if \<not> recentlyClicked then emit s1 (HighlightNode ed element)
             else emit (emit (emit s1 (SetSelectionToNodeStart ed element)) (HighlightOff ed))
                    (ExecuteCommand ''workbench.action.focusActiveEditorGroup''))"

subsection \<open>Discovery and results\<close>

text \<open>
  \<open>isRootNode\<close> is the predicate of that name of \<^verbatim>\<open>./ginkgoNode\<close>, which is not among the
  sources; it is a parameter. \<^verbatim>\<open>Array.prototype.find\<close> returns the first element that
  satisfies it, as \<^const>\<open>List.find\<close> does, and \<^verbatim>\<open>Map.prototype.set\<close> overwrites the
  entry of a key that is already present.
\<close>

definition onDicoveredTest :: "(ginkgoNode \<Rightarrow> bool) \<Rightarrow> provider \<Rightarrow> addr list \<Rightarrow> provider" where
  "onDicoveredTest isRootNode s ns =
     (let s1 = s\<lparr>rootNode := List.find (\<lambda>n. isRootNode (heap s n)) ns\<rparr>;
          s2 = s1\<lparr>discoveredTests := (if length ns > 0 then ns else [])\<rparr>;
          s3 = s2\<lparr>discoveredTestsMap := Map.empty\<rparr>
      in foldl (\<lambda>t node. t\<lparr>discoveredTestsMap := (discoveredTestsMap t)(key (heap t node) \<mapsto> node)\<rparr>)
           s3 (discoveredTests s3))"

text \<open>
  The body of the first loop of \<^verbatim>\<open>onTestResult\<close>, on the state and the array
  \<^verbatim>\<open>inResults\<close> of the keys settled so far.
\<close>

definition handleResult :: "provider \<times> string list \<Rightarrow> testResult \<Rightarrow> provider \<times> string list" where
  "handleResult si r =
     (case discoveredTestsMap (fst si) (testName r) of
        None \<Rightarrow> si
      | Some testNode \<Rightarrow>
          if running (heap (fst si) testNode)
          then (fire ((fst si)\<lparr>heap := (heap (fst si))
                        (testNode := (heap (fst si) testNode)\<lparr>running := False, result := Some r\<rparr>)\<rparr>)
                  (Some testNode),
                snd si @ [key (heap (fst si) testNode)])
          else si)"

definition stopRunning :: "provider \<Rightarrow> addr \<Rightarrow> provider" where
  "stopRunning s testNode =
     fire (s\<lparr>heap := (heap s)(testNode := (heap s testNode)\<lparr>running := False\<rparr>)\<rparr>) (Some testNode)"

text \<open>
  The second loop: \<^verbatim>\<open>filter\<close> builds the array of the nodes to stop before \<^verbatim>\<open>forEach\<close>
  stops the first of them.
\<close>

definition sweep :: "provider \<Rightarrow> string list \<Rightarrow> provider" where
  "sweep s inResults =
     foldl stopRunning s
       (filter (\<lambda>t. key (heap s t) \<notin> set inResults \<and> running (heap s t)) (discoveredTests s))"

definition onTestResult :: "provider \<Rightarrow> testResult list \<Rightarrow> provider" where
  "onTestResult s testResults =
     (let si = foldl handleResult (s, []) testResults in sweep (fst si) (snd si))"

subsection \<open>Construction\<close>

text \<open>
  The state the constructor leaves: the editor that is active at that moment, the
  listener of the given mode, the delay clamped by \<^verbatim>\<open>setUpdateOnTypeDelay\<close>, no discovered
  tests, no click and no timer. The store and the time of construction are given.
\<close>

definition newProvider ::
  "textEditor option \<Rightarrow> UpdateOn \<Rightarrow> int \<Rightarrow> int \<Rightarrow> (addr \<Rightarrow> ginkgoNode) \<Rightarrow> int \<Rightarrow> provider" where
  "newProvider activeTextEditor u delay threshold h now =
     setUpdateOnTypeDelay
       (setUpdateOn
          \<lparr>updateListener = None, editor = activeTextEditor, roots = [],
           discoveredTestsMap = Map.empty, discoveredTests = [], rootNode = None,
           lastClickedNode = None, lastClickedTime = None, documentChangedTimer = None,
           updateOnTypeDelay = delay, doubleClickThreshold = threshold,
           heap = h, clock = now, pending = [], nextTimer = 0, effects = []\<rparr>
          u)
       delay"

subsection \<open>Well-formed states\<close>

text \<open>
  The index and the discovered list agree: every discovered node is found under its own
  key, and the index holds discovered nodes only. \<open>onDicoveredTest\<close> establishes this
  when the keys of the discovered set are unique, and no handler changes a key.
\<close>

definition keys_unique :: "(addr \<Rightarrow> ginkgoNode) \<Rightarrow> addr list \<Rightarrow> bool" where
  "keys_unique h ns = (\<forall>a\<in>set ns. \<forall>b\<in>set ns. key (h a) = key (h b) \<longrightarrow> a = b)"

definition index_consistent :: "provider \<Rightarrow> bool" where
  "index_consistent s =
     ((\<forall>a\<in>set (discoveredTests s). discoveredTestsMap s (key (heap s a)) = Some a)
      \<and> (\<forall>k a. discoveredTestsMap s k = Some a \<longrightarrow> a \<in> set (discoveredTests s)))"

text \<open>Every pending timer is the one the provider holds in \<open>documentChangedTimer\<close>.\<close>

definition timers_tracked :: "provider \<Rightarrow> bool" where
  "timers_tracked s = (\<forall>p\<in>set (pending s). documentChangedTimer s = Some (fst p))"

text \<open>
  The state between the events of a burst: the one pending timer is the one the
  provider holds, due one delay after the present time.
\<close>

definition armed :: "provider \<Rightarrow> bool" where
  "armed s =
     (\<exists>h. pending s = [(h, clock s + timeoutDelay (updateOnTypeDelay s))]
          \<and> documentChangedTimer s = Some h)"

text \<open>
  The discovered list is the flattening of the outline: its keys are pairwise different
  and it holds the children of each of its nodes. \<open>height_le n h a\<close> bounds the height of
  the subtree of \<open>a\<close> in the store \<open>h\<close> by \<open>n\<close>; \<open>children h\<close> is the child relation of the
  store.
\<close>

definition flattened :: "provider \<Rightarrow> bool" where
  "flattened s =
     (distinct (map (\<lambda>a. key (heap s a)) (discoveredTests s))
      \<and> (\<forall>a\<in>set (discoveredTests s). set (nodes (heap s a)) \<subseteq> set (discoveredTests s)))"

fun height_le :: "nat \<Rightarrow> (addr \<Rightarrow> ginkgoNode) \<Rightarrow> addr \<Rightarrow> bool" where
  "height_le 0 h a = False"
| "height_le (Suc n) h a = (\<forall>c\<in>set (nodes (h a)). height_le n h c)"

definition children :: "(addr \<Rightarrow> ginkgoNode) \<Rightarrow> (addr \<times> addr) set" where
  "children h = {(p, c). c \<in> set (nodes (h p))}"

text \<open>
  What a run request leaves alone: the discovered list, the key and the children of
  every node, and the nodes that are already running; the log of effects only grows.
\<close>

definition run_extends :: "provider \<Rightarrow> provider \<Rightarrow> bool" where
  "run_extends s s' =
     (discoveredTests s' = discoveredTests s
      \<and> (\<forall>a. key (heap s' a) = key (heap s a) \<and> nodes (heap s' a) = nodes (heap s a)
             \<and> (running (heap s a) \<longrightarrow> running (heap s' a)))
      \<and> (\<exists>es. effects s' = effects s @ es))"

definition signalled :: "provider \<Rightarrow> provider \<Rightarrow> addr \<Rightarrow> bool" where
  "signalled s s' d =
     (running (heap s' d)
      \<and> SendTestRunStarted d \<in> set (drop (length (effects s)) (effects s'))
      \<and> TreeChanged (Some d) \<in> set (drop (length (effects s)) (effects s')))"

subsection \<open>A small suite\<close>

text \<open>
  The outline \<^verbatim>\<open>root { containerX { specA, specB } }\<close> at the addresses \<open>0\<close> to \<open>3\<close>, and
  the two nodes of an earlier outline of the same file at the addresses \<open>4\<close> and \<open>5\<close>.
\<close>

definition example_node :: "string \<Rightarrow> int \<Rightarrow> int \<Rightarrow> addr list \<Rightarrow> ginkgoNode" where
  "example_node k st en cs =
     \<lparr>key = k, name = k, node_text = k, start = st, node_end = en, is_spec = (cs = []),
      focused = False, running = False, result = None, nodes = cs\<rparr>"

definition example_heap :: "addr \<Rightarrow> ginkgoNode" where
  "example_heap =
     (\<lambda>a. example_node ''unused'' 0 0 [])
       (0 := example_node ''root'' 0 100 [1],
        1 := example_node ''containerX'' 0 10 [2, 3],
        2 := example_node ''specA'' 20 30 [],
        3 := example_node ''specB'' 40 50 [],
        4 := example_node ''root'' 0 60 [5],
        5 := example_node ''specA'' 20 30 [])"

definition example_isRootNode :: "ginkgoNode \<Rightarrow> bool" where
  "example_isRootNode n = (key n = ''root'')"

definition example_document :: textDocument where
  "example_document = \<lparr>uri = ''file:///suite_test.go'', languageId = ''go''\<rparr>"

definition example_editor :: textEditor where
  "example_editor = \<lparr>document = example_document, viewColumn = Some 1\<rparr>"

definition example_provider :: provider where
  "example_provider = newProvider (Some example_editor) onType 300 400 example_heap 1000"

definition example_noeditor :: provider where
  "example_noeditor = newProvider None onType 300 400 example_heap 1000"

definition example_discovered :: provider where
  "example_discovered = onDicoveredTest example_isRootNode example_provider [0, 1, 2, 3]"

definition example_running :: provider where
  "example_running = onTestRunStarted (onTestRunStarted example_discovered 2) 3"

definition example_passed :: testResult where
  "example_passed = \<lparr>testName = ''specA'', isPassed = True, result_output = None\<rparr>"

definition example_change :: changeEvent where
  "example_change = \<lparr>evt_document = example_document, contentChanges = [''x'']\<rparr>"

definition example_typing :: provider where
  "example_typing = documentChanged example_provider example_change"

definition example_empty_change :: changeEvent where
  "example_empty_change = \<lparr>evt_document = example_document, contentChanges = []\<rparr>"

definition example_failing_parser :: "textDocument \<Rightarrow> string + addr list" where
  "example_failing_parser doc = Inl ''exit status 1''"

definition example_long_delay :: provider where
  "example_long_delay =
     newProvider (Some example_editor) onType 2147483648 400 example_heap 1000"

definition example_restarted :: provider where
  "example_restarted = onTestRunStarted (onTestResult example_running [example_passed]) 3"

section \<open>Discovery\<close>

lemma index_fold:
  "foldl (\<lambda>t node. t\<lparr>discoveredTestsMap := (discoveredTestsMap t)(key (heap t node) \<mapsto> node)\<rparr>) s ns
   = s\<lparr>discoveredTestsMap := foldl (\<lambda>m node. m(key (heap s node) \<mapsto> node)) (discoveredTestsMap s) ns\<rparr>"
  by (induction ns arbitrary: s) simp_all

lemma index_entry:
  "foldl (\<lambda>m node. m(kf node \<mapsto> node)) m0 ns k = Some a
   \<Longrightarrow> m0 k = Some a \<or> (a \<in> set ns \<and> kf a = k)"
  by (induction ns rule: rev_induct) (auto split: if_splits)

lemma index_dom:
  "dom (foldl (\<lambda>m node. m(kf node \<mapsto> node)) m0 ns) = dom m0 \<union> kf ` set ns"
proof -
  define f where "f = (\<lambda>(m :: 'a \<Rightarrow> 'b option) node. m(kf node \<mapsto> node))"
  have step: "dom (f m n) = insert (kf n) (dom m)" for m n
    by (simp add: f_def)
  have "dom (foldl f m0 ns) = dom m0 \<union> kf ` set ns"
    by (induction ns rule: rev_induct) (simp_all add: step)
  then show ?thesis
    unfolding f_def .
qed

lemma index_unique:
  "a \<in> set ns \<Longrightarrow> \<forall>b\<in>set ns. kf b = kf a \<longrightarrow> b = a
   \<Longrightarrow> foldl (\<lambda>m node. m(kf node \<mapsto> node)) m0 ns (kf a) = Some a"
  by (induction ns rule: rev_induct) auto

lemma onDicoveredTest_fields:
  "onDicoveredTest isRootNode s ns =
     s\<lparr>rootNode := List.find (\<lambda>n. isRootNode (heap s n)) ns,
       discoveredTests := ns,
       discoveredTestsMap := foldl (\<lambda>m node. m(key (heap s node) \<mapsto> node)) Map.empty ns\<rparr>"
  by (cases ns) (simp_all add: onDicoveredTest_def index_fold)

text \<open>
  Claim C1. Two discovery events \<open>D1\<close> then \<open>D2\<close> are delivered. Afterwards the discovered
  list is \<open>D2\<close>; the keys of the index are exactly the keys of the nodes of \<open>D2\<close>; every
  entry of the index is a node of \<open>D2\<close> stored under its own key, and when the keys of
  \<open>D2\<close> are unique every node of \<open>D2\<close> is found under its key; no node of \<open>D1\<close> that is
  not also a node of \<open>D2\<close> is in the range of the index; and the root reference is the
  first node of \<open>D2\<close> that satisfies \<open>isRootNode\<close>, or \<open>None\<close> when no node does.
\<close>
theorem onDicoveredTest_rebuilds_index:
  "let s2 = onDicoveredTest isRootNode (onDicoveredTest isRootNode s D1) D2;
       idx = discoveredTestsMap s2
   in discoveredTests s2 = D2
      \<and> dom idx = (\<lambda>a. key (heap s a)) ` set D2
      \<and> (\<forall>k a. idx k = Some a \<longrightarrow> a \<in> set D2 \<and> key (heap s a) = k)
      \<and> (keys_unique (heap s) D2 \<longrightarrow> (\<forall>a\<in>set D2. idx (key (heap s a)) = Some a))
      \<and> (\<forall>a\<in>set D1. a \<notin> set D2 \<longrightarrow> a \<notin> ran idx)
      \<and> (case rootNode s2 of
            None \<Rightarrow> \<forall>a\<in>set D2. \<not> isRootNode (heap s a)
          | Some r \<Rightarrow> \<exists>i<length D2. D2 ! i = r \<and> isRootNode (heap s r)
                        \<and> (\<forall>j<i. \<not> isRootNode (heap s (D2 ! j))))"
proof -
  define idx where "idx = foldl (\<lambda>m node. m(key (heap s node) \<mapsto> node)) Map.empty D2"
  have entry: "a \<in> set D2 \<and> key (heap s a) = k" if "idx k = Some a" for k a
    using index_entry [of "\<lambda>a. key (heap s a)" Map.empty D2 k a] that by (simp add: idx_def)
  have d: "dom idx = (\<lambda>a. key (heap s a)) ` set D2"
    by (simp add: idx_def index_dom)
  have u: "idx (key (heap s a)) = Some a" if "keys_unique (heap s) D2" "a \<in> set D2" for a
    unfolding idx_def
    by (rule index_unique [of a D2 "\<lambda>a. key (heap s a)"]) (use that in \<open>auto simp: keys_unique_def\<close>)
  have r: "a \<notin> ran idx" if "a \<notin> set D2" for a
    using entry that by (auto simp: ran_def)
  have root: "case List.find (\<lambda>n. isRootNode (heap s n)) D2 of
            None \<Rightarrow> \<forall>a\<in>set D2. \<not> isRootNode (heap s a)
          | Some r \<Rightarrow> \<exists>i<length D2. D2 ! i = r \<and> isRootNode (heap s r)
                        \<and> (\<forall>j<i. \<not> isRootNode (heap s (D2 ! j)))"
    by (auto split: option.splits simp: find_None_iff find_Some_iff)
  show ?thesis
    using entry d u r root by (simp add: onDicoveredTest_fields Let_def idx_def [symmetric])
qed

text \<open>
  On the small suite: the outline at \<open>0\<close> to \<open>3\<close> replaces the earlier one at \<open>4\<close> and \<open>5\<close>,
  which carries the same keys.
\<close>
theorem onDicoveredTest_rebuilds_index_witness:
  "keys_unique (heap example_provider) [0, 1, 2, 3]
   \<and> discoveredTests (onDicoveredTest example_isRootNode
         (onDicoveredTest example_isRootNode example_provider [4, 5]) [0, 1, 2, 3]) = [0, 1, 2, 3]
   \<and> discoveredTestsMap (onDicoveredTest example_isRootNode
         (onDicoveredTest example_isRootNode example_provider [4, 5]) [0, 1, 2, 3]) ''specA'' = Some 2
   \<and> 4 \<notin> ran (discoveredTestsMap (onDicoveredTest example_isRootNode
         (onDicoveredTest example_isRootNode example_provider [4, 5]) [0, 1, 2, 3]))
   \<and> 5 \<notin> ran (discoveredTestsMap (onDicoveredTest example_isRootNode
         (onDicoveredTest example_isRootNode example_provider [4, 5]) [0, 1, 2, 3]))
   \<and> rootNode (onDicoveredTest example_isRootNode
         (onDicoveredTest example_isRootNode example_provider [4, 5]) [0, 1, 2, 3]) = Some 0
   \<and> rootNode (onDicoveredTest example_isRootNode
         (onDicoveredTest example_isRootNode example_provider [4, 5]) [1, 2, 3]) = None"
proof -
  have h: "heap example_provider = example_heap"
    by (simp add: example_provider_def newProvider_def setUpdateOn_def setUpdateOnTypeDelay_def)
  have u: "keys_unique (heap example_provider) [0, 1, 2, 3]"
    by (simp add: h keys_unique_def example_heap_def example_node_def)
  have k: "key (heap example_provider 2) = ''specA''"
    by (simp add: h example_heap_def example_node_def)
  have r: "rootNode (onDicoveredTest example_isRootNode
         (onDicoveredTest example_isRootNode example_provider [4, 5]) [0, 1, 2, 3]) = Some 0"
    "rootNode (onDicoveredTest example_isRootNode
         (onDicoveredTest example_isRootNode example_provider [4, 5]) [1, 2, 3]) = None"
    by (simp_all add: onDicoveredTest_fields h example_heap_def example_node_def
        example_isRootNode_def)
  from u k r onDicoveredTest_rebuilds_index
    [of example_isRootNode example_provider "[4, 5]" "[0, 1, 2, 3]"]
  show ?thesis
    by (simp add: Let_def)
qed

lemma onDicoveredTest_consistent:
  assumes "keys_unique (heap s) ns"
  shows "index_consistent (onDicoveredTest isRootNode s ns)"
proof -
  have "foldl (\<lambda>m node. m(key (heap s node) \<mapsto> node)) Map.empty ns (key (heap s a)) = Some a"
    if "a \<in> set ns" for a
    by (rule index_unique [of a ns "\<lambda>a. key (heap s a)"])
      (use that assms in \<open>auto simp: keys_unique_def\<close>)
  moreover have "a \<in> set ns"
    if "foldl (\<lambda>m node. m(key (heap s node) \<mapsto> node)) Map.empty ns k = Some a" for k a
    using index_entry [of "\<lambda>a. key (heap s a)" Map.empty ns k a] that by simp
  ultimately show ?thesis
    by (simp add: index_consistent_def onDicoveredTest_fields)
qed

section \<open>Results\<close>

lemma handleResult_index [simp]:
  "discoveredTestsMap (fst (handleResult si r)) = discoveredTestsMap (fst si)"
  by (simp add: handleResult_def fire_def split: option.splits)

lemma handleResult_discovered [simp]:
  "discoveredTests (fst (handleResult si r)) = discoveredTests (fst si)"
  by (simp add: handleResult_def fire_def split: option.splits)

lemma handleResult_key [simp]:
  "key (heap (fst (handleResult si r)) a) = key (heap (fst si) a)"
  by (simp add: handleResult_def fire_def split: option.splits)

lemma handleResult_idle:
  "\<not> running (heap (fst si) a) \<Longrightarrow> heap (fst (handleResult si r)) a = heap (fst si) a"
  by (auto simp: handleResult_def fire_def split: option.splits)

lemma results_index [simp]:
  "discoveredTestsMap (fst (foldl handleResult si rs)) = discoveredTestsMap (fst si)"
  by (induction rs arbitrary: si) simp_all

lemma results_discovered [simp]:
  "discoveredTests (fst (foldl handleResult si rs)) = discoveredTests (fst si)"
  by (induction rs arbitrary: si) simp_all

lemma results_key [simp]:
  "key (heap (fst (foldl handleResult si rs)) a) = key (heap (fst si) a)"
  by (induction rs arbitrary: si) simp_all

lemma results_idle:
  "\<not> running (heap (fst si) a) \<Longrightarrow> heap (fst (foldl handleResult si rs)) a = heap (fst si) a"
  by (induction rs arbitrary: si) (simp_all add: handleResult_idle)

lemma stopRunning_fold:
  "foldl stopRunning s ts =
     s\<lparr>heap := (\<lambda>a. if a \<in> set ts then (heap s a)\<lparr>running := False\<rparr> else heap s a),
       effects := effects s @ map (\<lambda>t. TreeChanged (Some t)) ts\<rparr>"
proof (induction ts rule: rev_induct)
  case Nil
  show ?case by simp
next
  case (snoc t ts)
  have "foldl stopRunning s (ts @ [t]) = stopRunning (foldl stopRunning s ts) t"
    by simp
  also have "\<dots> = stopRunning
      (s\<lparr>heap := (\<lambda>a. if a \<in> set ts then (heap s a)\<lparr>running := False\<rparr> else heap s a),
         effects := effects s @ map (\<lambda>t. TreeChanged (Some t)) ts\<rparr>) t"
    by (simp only: snoc)
  also have "\<dots> =
     s\<lparr>heap := (\<lambda>a. if a \<in> set (ts @ [t]) then (heap s a)\<lparr>running := False\<rparr> else heap s a),
       effects := effects s @ map (\<lambda>t. TreeChanged (Some t)) (ts @ [t])\<rparr>"
    by (simp add: stopRunning_def fire_def fun_eq_iff)
  finally show ?case .
qed

lemma sweep_heap:
  "heap (sweep s i) a =
     (if a \<in> set (discoveredTests s) \<and> key (heap s a) \<notin> set i \<and> running (heap s a)
      then (heap s a)\<lparr>running := False\<rparr> else heap s a)"
  by (simp add: sweep_def stopRunning_fold)

lemma sweep_effects:
  "effects (sweep s i) =
     effects s @ map (\<lambda>t. TreeChanged (Some t))
       (filter (\<lambda>t. key (heap s t) \<notin> set i \<and> running (heap s t)) (discoveredTests s))"
  by (simp add: sweep_def stopRunning_fold)

lemma sweep_index [simp]: "discoveredTestsMap (sweep s i) = discoveredTestsMap s"
  by (simp add: sweep_def stopRunning_fold)

lemma sweep_discovered [simp]: "discoveredTests (sweep s i) = discoveredTests s"
  by (simp add: sweep_def stopRunning_fold)

lemma sweep_nothing:
  "\<forall>t\<in>set (discoveredTests s). \<not> running (heap s t) \<Longrightarrow> sweep s i = s"
proof -
  assume "\<forall>t\<in>set (discoveredTests s). \<not> running (heap s t)"
  then have "filter (\<lambda>t. key (heap s t) \<notin> set i \<and> running (heap s t)) (discoveredTests s) = []"
    by (simp add: filter_empty_conv)
  then show ?thesis by (simp add: sweep_def)
qed

lemma index_consistent_frame:
  assumes "index_consistent s" "discoveredTests s' = discoveredTests s"
    "discoveredTestsMap s' = discoveredTestsMap s" "\<And>a. key (heap s' a) = key (heap s a)"
  shows "index_consistent s'"
  using assms by (simp add: index_consistent_def)

lemma handleResult_consistent:
  assumes "index_consistent (fst si)"
  shows "index_consistent (fst (handleResult si r))"
  using assms by (rule index_consistent_frame) simp_all

lemma handleResult_settled:
  assumes inv: "index_consistent (fst si)"
    and idle: "\<forall>t\<in>set (discoveredTests (fst si)).
                 key (heap (fst si) t) \<in> set (snd si) \<longrightarrow> \<not> running (heap (fst si) t)"
  shows "\<forall>t\<in>set (discoveredTests (fst (handleResult si r))).
           key (heap (fst (handleResult si r)) t) \<in> set (snd (handleResult si r))
           \<longrightarrow> \<not> running (heap (fst (handleResult si r)) t)"
proof (cases "\<exists>a. discoveredTestsMap (fst si) (testName r) = Some a \<and> running (heap (fst si) a)")
  case False
  then have "handleResult si r = si"
    by (auto simp: handleResult_def split: option.splits)
  with idle show ?thesis by simp
next
  case True
  then obtain a where a: "discoveredTestsMap (fst si) (testName r) = Some a" "running (heap (fst si) a)"
    by blast
  have ad: "a \<in> set (discoveredTests (fst si))"
    using inv a(1) by (auto simp: index_consistent_def)
  have same: "t = a"
    if t: "t \<in> set (discoveredTests (fst si))" "key (heap (fst si) t) = key (heap (fst si) a)" for t
  proof -
    have "discoveredTestsMap (fst si) (key (heap (fst si) t)) = Some t"
      using inv t(1) by (simp add: index_consistent_def)
    moreover have "discoveredTestsMap (fst si) (key (heap (fst si) a)) = Some a"
      using inv ad by (simp add: index_consistent_def)
    ultimately have "Some t = Some a"
      using t(2) by metis
    then show ?thesis by simp
  qed
  show ?thesis
    using a idle same by (auto simp: handleResult_def fire_def)
qed

lemma results_settled:
  "index_consistent (fst si)
   \<Longrightarrow> \<forall>t\<in>set (discoveredTests (fst si)).
         key (heap (fst si) t) \<in> set (snd si) \<longrightarrow> \<not> running (heap (fst si) t)
   \<Longrightarrow> \<forall>t\<in>set (discoveredTests (fst (foldl handleResult si rs))).
         key (heap (fst (foldl handleResult si rs)) t) \<in> set (snd (foldl handleResult si rs))
         \<longrightarrow> \<not> running (heap (fst (foldl handleResult si rs)) t)"
proof (induction rs arbitrary: si)
  case Nil
  then show ?case by simp
next
  case (Cons r rs)
  show ?case
    using Cons.IH [OF handleResult_consistent [OF Cons.prems(1)]
                      handleResult_settled [OF Cons.prems(1) Cons.prems(2)]]
    by simp
qed

lemma onTestResult_consistent:
  assumes "index_consistent s"
  shows "index_consistent (onTestResult s rs)"
  using assms by (rule index_consistent_frame) (simp_all add: onTestResult_def Let_def sweep_heap)

lemma onTestResult_all_idle:
  assumes "index_consistent s" "t \<in> set (discoveredTests s)"
  shows "\<not> running (heap (onTestResult s rs) t)"
proof -
  have "\<forall>t\<in>set (discoveredTests (fst (foldl handleResult (s, []) rs))).
         key (heap (fst (foldl handleResult (s, []) rs)) t) \<in> set (snd (foldl handleResult (s, []) rs))
         \<longrightarrow> \<not> running (heap (fst (foldl handleResult (s, []) rs)) t)"
    by (rule results_settled) (use assms in simp_all)
  then show ?thesis
    using assms(2) by (auto simp: onTestResult_def Let_def sweep_heap)
qed

lemma results_nothing:
  assumes "index_consistent (fst si)"
    "\<forall>t\<in>set (discoveredTests (fst si)). \<not> running (heap (fst si) t)"
  shows "foldl handleResult si rs = si"
proof (induction rs)
  case Nil
  show ?case by simp
next
  case (Cons r rs)
  have "handleResult si r = si"
    using assms by (auto simp: handleResult_def index_consistent_def split: option.splits)
  with Cons show ?case by simp
qed

lemma onTestResult_nothing:
  assumes "index_consistent s" "\<forall>t\<in>set (discoveredTests s). \<not> running (heap s t)"
  shows "onTestResult s rs = s"
  using results_nothing [of "(s, [])" rs] assms
  by (simp add: onTestResult_def sweep_nothing)

lemma results_untouched:
  "\<forall>r\<in>set rs. \<forall>a. discoveredTestsMap (fst si) (testName r) = Some a
      \<longrightarrow> \<not> running (heap (fst si) a)
   \<Longrightarrow> foldl handleResult si rs = si"
proof (induction rs)
  case Nil
  show ?case by simp
next
  case (Cons r rs)
  then have "handleResult si r = si"
    by (auto simp: handleResult_def split: option.splits)
  with Cons show ?case by simp
qed

lemma onTestRunStarted_consistent:
  assumes "index_consistent s"
  shows "index_consistent (onTestRunStarted s n)"
  using assms by (rule index_consistent_frame) (simp_all add: onTestRunStarted_def fire_def)

text \<open>
  Claim C2. Let the first loop of \<open>onTestResult\<close> end in the state \<open>s1\<close> with the settled
  keys \<open>inResults\<close>. A result that, when its turn comes, is mapped by the index to a running
  node \<open>a\<close> sets \<open>running\<close> of \<open>a\<close> to false, stores the result in \<open>a\<close>, records the key of
  \<open>a\<close> and fires exactly one invalidation scoped to \<open>a\<close>; at the end of the batch \<open>a\<close> is
  still not running and still holds that result. Every discovered node that is running
  after the first loop and whose key was not settled is not running at the end, and an
  invalidation scoped to it is fired by the sweep. When the index agrees with the
  discovered list, no discovered node is running at the end of the batch.
\<close>
theorem onTestResult_settles_and_sweeps:
  assumes "foldl handleResult (s, []) testResults = (s1, inResults)"
  shows "(\<forall>pre r post \<sigma> inR a.
            testResults = pre @ r # post \<and> foldl handleResult (s, []) pre = (\<sigma>, inR)
            \<and> discoveredTestsMap \<sigma> (testName r) = Some a \<and> running (heap \<sigma> a)
            \<longrightarrow> handleResult (\<sigma>, inR) r =
                  (\<sigma>\<lparr>heap := (heap \<sigma>)(a := (heap \<sigma> a)\<lparr>running := False, result := Some r\<rparr>),
                     effects := effects \<sigma> @ [TreeChanged (Some a)]\<rparr>,
                   inR @ [key (heap \<sigma> a)])
                \<and> \<not> running (heap (onTestResult s testResults) a)
                \<and> result (heap (onTestResult s testResults) a) = Some r)
       \<and> (\<forall>t\<in>set (discoveredTests s).
             running (heap s1 t) \<and> key (heap s1 t) \<notin> set inResults
             \<longrightarrow> \<not> running (heap (onTestResult s testResults) t)
                 \<and> TreeChanged (Some t)
                     \<in> set (drop (length (effects s1)) (effects (onTestResult s testResults))))
       \<and> (index_consistent s
            \<longrightarrow> (\<forall>t\<in>set (discoveredTests s). \<not> running (heap (onTestResult s testResults) t)))"
proof -
  have final: "onTestResult s testResults = sweep s1 inResults"
    using assms by (simp add: onTestResult_def)
  have disc: "discoveredTests s1 = discoveredTests s"
    using results_discovered [of "(s, [])" testResults] assms by simp
  have settle: "handleResult (\<sigma>, inR) r =
                  (\<sigma>\<lparr>heap := (heap \<sigma>)(a := (heap \<sigma> a)\<lparr>running := False, result := Some r\<rparr>),
                     effects := effects \<sigma> @ [TreeChanged (Some a)]\<rparr>,
                   inR @ [key (heap \<sigma> a)])
                \<and> \<not> running (heap (onTestResult s testResults) a)
                \<and> result (heap (onTestResult s testResults) a) = Some r"
    if split: "testResults = pre @ r # post"
      and pre: "foldl handleResult (s, []) pre = (\<sigma>, inR)"
      and hit: "discoveredTestsMap \<sigma> (testName r) = Some a" "running (heap \<sigma> a)"
    for pre r post \<sigma> inR a
  proof -
    let ?n = "(heap \<sigma> a)\<lparr>running := False, result := Some r\<rparr>"
    let ?\<sigma>' = "\<sigma>\<lparr>heap := (heap \<sigma>)(a := ?n), effects := effects \<sigma> @ [TreeChanged (Some a)]\<rparr>"
    have step: "handleResult (\<sigma>, inR) r = (?\<sigma>', inR @ [key (heap \<sigma> a)])"
      using hit by (simp add: handleResult_def fire_def)
    have "foldl handleResult (?\<sigma>', inR @ [key (heap \<sigma> a)]) post = (s1, inResults)"
      using assms split pre step by simp
    moreover have "\<not> running (heap (fst (?\<sigma>', inR @ [key (heap \<sigma> a)])) a)"
      by simp
    ultimately have "heap s1 a = ?n"
      using results_idle [of "(?\<sigma>', inR @ [key (heap \<sigma> a)])" a post] by simp
    then have "heap (sweep s1 inResults) a = ?n"
      by (simp add: sweep_heap)
    with step final show ?thesis by simp
  qed
  have swept: "\<not> running (heap (onTestResult s testResults) t)
                 \<and> TreeChanged (Some t)
                     \<in> set (drop (length (effects s1)) (effects (onTestResult s testResults)))"
    if "t \<in> set (discoveredTests s)" "running (heap s1 t)" "key (heap s1 t) \<notin> set inResults" for t
    using that disc by (simp add: final sweep_heap sweep_effects)
  have idle: "\<not> running (heap (onTestResult s testResults) t)"
    if "index_consistent s" "t \<in> set (discoveredTests s)" for t
    using that by (rule onTestResult_all_idle)
  show ?thesis
    using settle swept idle by blast
qed

lemma example_running_fields:
  "discoveredTests example_running = [0, 1, 2, 3]"
  "discoveredTestsMap example_running ''specA'' = Some 2"
  "heap example_running 0 = example_node ''root'' 0 100 [1]"
  "heap example_running (Suc 0) = example_node ''containerX'' 0 10 [2, 3]"
  "heap example_running 2 = (example_node ''specA'' 20 30 [])\<lparr>running := True\<rparr>"
  "heap example_running 3 = (example_node ''specB'' 40 50 [])\<lparr>running := True\<rparr>"
  by (simp_all add: example_running_def example_discovered_def onDicoveredTest_fields
      onTestRunStarted_def fire_def example_provider_def newProvider_def setUpdateOn_def
      setUpdateOnTypeDelay_def example_heap_def example_node_def)

lemma example_running_consistent: "index_consistent example_running"
  by (simp add: index_consistent_def example_running_def example_discovered_def
      onDicoveredTest_fields onTestRunStarted_def fire_def example_provider_def newProvider_def
      setUpdateOn_def setUpdateOnTypeDelay_def example_heap_def example_node_def
      split: if_splits)

text \<open>
  On the small suite, with both specs running and a result for \<open>specA\<close> only: \<open>specA\<close> is
  settled with the result and \<open>specB\<close> is swept.
\<close>
theorem onTestResult_settles_and_sweeps_witness:
  "discoveredTestsMap example_running (testName example_passed) = Some 2
   \<and> running (heap example_running 2)
   \<and> running (heap example_running 3)
   \<and> \<not> running (heap (onTestResult example_running [example_passed]) 2)
   \<and> result (heap (onTestResult example_running [example_passed]) 2) = Some example_passed
   \<and> \<not> running (heap (onTestResult example_running [example_passed]) 3)
   \<and> index_consistent example_running
   \<and> \<not> running (heap (onTestResult example_running [example_passed]) 1)"
proof -
  have n: "testName example_passed = ''specA''"
    by (simp add: example_passed_def)
  define s1 where "s1 = fst (handleResult (example_running, []) example_passed)"
  define inR where "inR = snd (handleResult (example_running, []) example_passed)"
  have run: "foldl handleResult (example_running, []) [example_passed] = (s1, inR)"
    by (simp add: s1_def inR_def)
  have s1: "running (heap s1 3)" "key (heap s1 3) \<notin> set inR"
    by (simp_all add: s1_def inR_def handleResult_def n example_running_fields fire_def
        example_node_def)
  have hit: "discoveredTestsMap example_running (testName example_passed) = Some 2"
    "running (heap example_running 2)" "running (heap example_running 3)"
    by (simp_all add: n example_running_fields)
  note t = onTestResult_settles_and_sweeps [OF run]
  from t have "\<not> running (heap (onTestResult example_running [example_passed]) 2)
      \<and> result (heap (onTestResult example_running [example_passed]) 2) = Some example_passed"
    using hit by (elim conjE allE [of _ "[]"] allE [of _ example_passed] allE [of _ example_running]
        allE [of _ 2]) simp
  moreover from t s1 have "\<not> running (heap (onTestResult example_running [example_passed]) 3)"
    by (simp add: example_running_fields)
  moreover from t example_running_consistent
  have "\<not> running (heap (onTestResult example_running [example_passed]) 1)"
    by (simp add: example_running_fields)
  ultimately show ?thesis
    using hit example_running_consistent by simp
qed

text \<open>
  Claim C8. A result whose test name is not a key of the index, or whose node is not
  running when its turn comes, leaves the state and the settled keys as they are (no node
  changes, no signal), and the batch that contains it ends in the same state as the batch
  without it. \<open>handleResult\<close> and \<open>onTestResult\<close> are total: there is no error to raise.
\<close>
theorem unmatched_result_dropped:
  assumes "foldl handleResult (s, []) pre = (\<sigma>, inR)"
    and "discoveredTestsMap \<sigma> (testName r) = None
         \<or> (\<exists>a. discoveredTestsMap \<sigma> (testName r) = Some a \<and> \<not> running (heap \<sigma> a))"
  shows "handleResult (\<sigma>, inR) r = (\<sigma>, inR)
       \<and> onTestResult s (pre @ r # post) = onTestResult s (pre @ post)"
proof -
  have step: "handleResult (\<sigma>, inR) r = (\<sigma>, inR)"
    using assms(2) by (auto simp: handleResult_def)
  then show ?thesis using assms(1) by (simp add: onTestResult_def)
qed

text \<open>On the small suite, a result for \<open>specA\<close> while nothing is running.\<close>
theorem unmatched_result_dropped_witness:
  "discoveredTestsMap example_discovered (testName example_passed) = Some 2
   \<and> \<not> running (heap example_discovered 2)
   \<and> handleResult (example_discovered, []) example_passed = (example_discovered, [])
   \<and> onTestResult example_discovered [example_passed] = onTestResult example_discovered []"
proof -
  have h: "discoveredTestsMap example_discovered (testName example_passed) = Some 2"
    "\<not> running (heap example_discovered 2)"
    by (simp_all add: example_discovered_def onDicoveredTest_fields example_passed_def
        example_provider_def newProvider_def setUpdateOn_def setUpdateOnTypeDelay_def
        example_heap_def example_node_def)
  have pre: "foldl handleResult (example_discovered, []) [] = (example_discovered, [])"
    by simp
  from h have "discoveredTestsMap example_discovered (testName example_passed) = None
         \<or> (\<exists>a. discoveredTestsMap example_discovered (testName example_passed) = Some a
                \<and> \<not> running (heap example_discovered a))"
    by simp
  from unmatched_result_dropped [OF pre this, of "[]"] h show ?thesis
    by simp
qed

text \<open>
  Claim C7, amended. When every node that the batch matches is not running, the results of
  the batch settle nothing: they change no node and fire no signal. The sweep still runs:
  the pass stops exactly the discovered nodes that are running, with one scoped signal for
  each, so it leaves the state unchanged exactly when no discovered node is running. This
  is the case when the batch is processed a second time right after the first, in a state
  whose index agrees with the discovered list: then the second pass changes nothing.
\<close>
theorem onTestResult_second_pass:
  "((\<forall>r\<in>set rs. \<forall>a. discoveredTestsMap s (testName r) = Some a \<longrightarrow> \<not> running (heap s a))
      \<longrightarrow> foldl handleResult (s, []) rs = (s, [])
          \<and> onTestResult s rs =
              s\<lparr>heap := (\<lambda>a. if a \<in> set (discoveredTests s) \<and> running (heap s a)
                               then (heap s a)\<lparr>running := False\<rparr> else heap s a),
                effects := effects s @ map (\<lambda>t. TreeChanged (Some t))
                                         (filter (\<lambda>t. running (heap s t)) (discoveredTests s))\<rparr>
          \<and> (onTestResult s rs = s \<longleftrightarrow> (\<forall>t\<in>set (discoveredTests s). \<not> running (heap s t))))
   \<and> (index_consistent s \<longrightarrow> onTestResult (onTestResult s rs) rs = onTestResult s rs)"
proof (intro conjI impI)
  assume idle: "\<forall>r\<in>set rs. \<forall>a. discoveredTestsMap s (testName r) = Some a
                  \<longrightarrow> \<not> running (heap s a)"
  then show loop: "foldl handleResult (s, []) rs = (s, [])"
    by (intro results_untouched) simp
  then have pass: "onTestResult s rs = sweep s []"
    by (simp add: onTestResult_def)
  show form: "onTestResult s rs =
              s\<lparr>heap := (\<lambda>a. if a \<in> set (discoveredTests s) \<and> running (heap s a)
                               then (heap s a)\<lparr>running := False\<rparr> else heap s a),
                effects := effects s @ map (\<lambda>t. TreeChanged (Some t))
                                         (filter (\<lambda>t. running (heap s t)) (discoveredTests s))\<rparr>"
    unfolding pass by (simp add: sweep_def stopRunning_fold)
  show "onTestResult s rs = s \<longleftrightarrow> (\<forall>t\<in>set (discoveredTests s). \<not> running (heap s t))"
  proof
    assume "onTestResult s rs = s"
    then have "effects (sweep s []) = effects s"
      using pass by simp
    then have "filter (\<lambda>t. running (heap s t)) (discoveredTests s) = []"
      by (simp add: sweep_effects)
    then show "\<forall>t\<in>set (discoveredTests s). \<not> running (heap s t)"
      by (simp add: filter_empty_conv)
  next
    assume "\<forall>t\<in>set (discoveredTests s). \<not> running (heap s t)"
    then show "onTestResult s rs = s"
      unfolding pass by (rule sweep_nothing)
  qed
next
  assume inv: "index_consistent s"
  show "onTestResult (onTestResult s rs) rs = onTestResult s rs"
  proof (rule onTestResult_nothing)
    show "index_consistent (onTestResult s rs)"
      using inv by (rule onTestResult_consistent)
    have "discoveredTests (onTestResult s rs) = discoveredTests s"
      by (simp add: onTestResult_def Let_def)
    then show "\<forall>t\<in>set (discoveredTests (onTestResult s rs)).
                 \<not> running (heap (onTestResult s rs) t)"
      using onTestResult_all_idle [OF inv] by simp
  qed
qed

text \<open>
  On the small suite: the batch twice in a row with both specs running, and the batch
  while nothing is running.
\<close>
theorem onTestResult_second_pass_witness:
  "index_consistent example_running
   \<and> onTestResult (onTestResult example_running [example_passed]) [example_passed]
       = onTestResult example_running [example_passed]
   \<and> discoveredTestsMap example_discovered (testName example_passed) = Some 2
   \<and> \<not> running (heap example_discovered 2)
   \<and> foldl handleResult (example_discovered, []) [example_passed] = (example_discovered, [])
   \<and> onTestResult example_discovered [example_passed] = example_discovered"
proof -
  have d: "discoveredTests example_discovered = [0, 1, 2, 3]"
    "heap example_discovered = example_heap"
    by (simp_all add: example_discovered_def onDicoveredTest_fields example_provider_def
        newProvider_def setUpdateOn_def setUpdateOnTypeDelay_def)
  have h: "discoveredTestsMap example_discovered (testName example_passed) = Some 2"
    "\<not> running (heap example_discovered 2)"
    by (simp_all add: example_discovered_def onDicoveredTest_fields example_passed_def
        example_provider_def newProvider_def setUpdateOn_def setUpdateOnTypeDelay_def
        example_heap_def example_node_def)
  then have m: "\<forall>r\<in>set [example_passed]. \<forall>a.
      discoveredTestsMap example_discovered (testName r) = Some a
      \<longrightarrow> \<not> running (heap example_discovered a)"
    by simp
  have i: "\<forall>t\<in>set (discoveredTests example_discovered). \<not> running (heap example_discovered t)"
    by (simp add: d example_heap_def example_node_def)
  from h m i example_running_consistent
    onTestResult_second_pass [of "[example_passed]" example_running]
    onTestResult_second_pass [of "[example_passed]" example_discovered]
  show ?thesis
    by blast
qed

lemma example_restarted_fields:
  "discoveredTests example_restarted = [0, 1, 2, 3]"
  "discoveredTestsMap example_restarted ''specA'' = Some 2"
  "\<not> running (heap example_restarted 0)"
  "\<not> running (heap example_restarted (Suc 0))"
  "\<not> running (heap example_restarted 2)"
  "running (heap example_restarted 3)"
  by (simp_all add: example_restarted_def onTestRunStarted_def fire_def onTestResult_def
      Let_def sweep_heap handleResult_def example_running_fields example_passed_def
      example_node_def)

text \<open>
  As stated, the claim fails: after the first pass \<open>specB\<close> is started again; the node
  matched by the batch, \<open>specA\<close>, is not running, and yet the second pass stops \<open>specB\<close>
  and fires a signal for it.
\<close>
theorem onTestResult_second_pass_sweeps:
  "discoveredTestsMap example_restarted (testName example_passed) = Some 2
   \<and> \<not> running (heap example_restarted 2)
   \<and> running (heap example_restarted 3)
   \<and> \<not> running (heap (onTestResult example_restarted [example_passed]) 3)
   \<and> effects (onTestResult example_restarted [example_passed])
       = effects example_restarted @ [TreeChanged (Some 3)]"
  by (simp add: onTestResult_def Let_def handleResult_def sweep_heap sweep_effects
      example_restarted_fields example_passed_def)

section \<open>Run requests\<close>

lemma run_extends_refl: "run_extends s s"
  by (simp add: run_extends_def)

lemma run_extends_trans:
  assumes "run_extends s s'" "run_extends s' s''"
  shows "run_extends s s''"
proof -
  from assms obtain es es' where "effects s' = effects s @ es" "effects s'' = effects s' @ es'"
    by (auto simp: run_extends_def)
  then have "effects s'' = effects s @ (es @ es')"
    by simp
  then have "\<exists>es. effects s'' = effects s @ es" ..
  with assms show ?thesis
    by (simp add: run_extends_def)
qed

lemma sendTestRunStarted_extends: "run_extends s (sendTestRunStarted s n)"
  by (simp add: run_extends_def sendTestRunStarted_def onTestRunStarted_def fire_def emit_def)

lemma sendTestRunStarted_signalled: "signalled s (sendTestRunStarted s n) n"
  by (simp add: signalled_def sendTestRunStarted_def onTestRunStarted_def fire_def emit_def)

lemma signalled_later:
  assumes "signalled s s' d" "run_extends s' s''"
  shows "signalled s s'' d"
proof -
  from assms(2) obtain es where es: "effects s'' = effects s' @ es"
    by (auto simp: run_extends_def)
  have "running (heap s'' d)"
    using assms by (simp add: signalled_def run_extends_def)
  moreover have "SendTestRunStarted d \<in> set (drop (length (effects s)) (effects s''))"
    using assms(1) by (simp add: signalled_def es)
  moreover have "TreeChanged (Some d) \<in> set (drop (length (effects s)) (effects s''))"
    using assms(1) by (simp add: signalled_def es)
  ultimately show ?thesis by (simp add: signalled_def)
qed

lemma signalled_earlier:
  assumes "run_extends s s'" "signalled s' s'' d"
  shows "signalled s s'' d"
proof -
  from assms(1) obtain es where "effects s' = effects s @ es"
    by (auto simp: run_extends_def)
  then have "length (effects s) \<le> length (effects s')"
    by simp
  then have "set (drop (length (effects s')) (effects s''))
             \<subseteq> set (drop (length (effects s)) (effects s''))"
    by (rule set_drop_subset_set_drop)
  with assms(2) show ?thesis
    by (auto simp: signalled_def)
qed

lemma flattened_extends:
  assumes "run_extends s s'" "flattened s"
  shows "flattened s'"
proof -
  have "map (\<lambda>a. key (heap s' a)) (discoveredTests s) = map (\<lambda>a. key (heap s a)) (discoveredTests s)"
    using assms(1) by (simp add: run_extends_def)
  with assms show ?thesis
    by (simp add: flattened_def run_extends_def)
qed

lemma height_le_nodes:
  "(\<And>a. nodes (h' a) = nodes (h a)) \<Longrightarrow> height_le n h' a = height_le n h a"
  by (induction n arbitrary: a) simp_all

lemma height_le_extends:
  "run_extends s s' \<Longrightarrow> height_le n (heap s') a = height_le n (heap s) a"
  by (rule height_le_nodes) (simp add: run_extends_def)

lemma children_extends: "run_extends s s' \<Longrightarrow> children (heap s') = children (heap s)"
  by (simp add: children_def run_extends_def)

lemma filter_unique_key:
  "distinct (map kf xs) \<Longrightarrow> x \<in> set xs \<Longrightarrow> filter (\<lambda>t. kf t = kf x) xs = [x]"
proof (induction xs)
  case Nil
  then show ?case by simp
next
  case (Cons y ys)
  show ?case
  proof (cases "y = x")
    case True
    have "kf x \<notin> kf ` set ys"
      using Cons.prems(1) True by simp
    then have "filter (\<lambda>t. kf t = kf x) ys = []"
      by (auto simp: filter_empty_conv image_iff)
    with True show ?thesis by simp
  next
    case False
    with Cons.prems have "x \<in> set ys" "kf y \<noteq> kf x"
      by auto
    with Cons show ?thesis by simp
  qed
qed

lemma forEach_child_signals:
  assumes call: "\<And>s c. flattened s \<Longrightarrow> c \<in> set (discoveredTests s) \<Longrightarrow> height_le f (heap s) c
            \<Longrightarrow> \<exists>s'. prepareToRunTest f s c = Some s' \<and> run_extends s s'
                     \<and> (\<forall>d. (c, d) \<in> (children (heap s))\<^sup>* \<longrightarrow> signalled s s' d)"
  shows "flattened s \<Longrightarrow> set cs \<subseteq> set (discoveredTests s) \<Longrightarrow> \<forall>c\<in>set cs. height_le f (heap s) c
         \<Longrightarrow> \<exists>s'. forEach_child f s cs = Some s' \<and> run_extends s s'
                  \<and> (\<forall>c\<in>set cs. \<forall>d. (c, d) \<in> (children (heap s))\<^sup>* \<longrightarrow> signalled s s' d)"
proof (induction cs arbitrary: s)
  case Nil
  then show ?case by (simp add: run_extends_refl)
next
  case (Cons c cs)
  from call [of s c] Cons.prems obtain s1 where s1:
    "prepareToRunTest f s c = Some s1" "run_extends s s1"
    "\<forall>d. (c, d) \<in> (children (heap s))\<^sup>* \<longrightarrow> signalled s s1 d"
    by auto
  have "flattened s1"
    using s1(2) Cons.prems(1) by (rule flattened_extends)
  moreover have "set cs \<subseteq> set (discoveredTests s1)"
    using s1(2) Cons.prems(2) by (simp add: run_extends_def)
  moreover have "\<forall>c\<in>set cs. height_le f (heap s1) c"
    using Cons.prems(3) by (simp add: height_le_extends [OF s1(2)])
  ultimately obtain s2 where s2:
    "forEach_child f s1 cs = Some s2" "run_extends s1 s2"
    "\<forall>c\<in>set cs. \<forall>d. (c, d) \<in> (children (heap s1))\<^sup>* \<longrightarrow> signalled s1 s2 d"
    using Cons.IH [of s1] by blast
  have "forEach_child f s (c # cs) = Some s2"
    using s1(1) s2(1) by simp
  moreover have "run_extends s s2"
    using s1(2) s2(2) by (rule run_extends_trans)
  moreover have "signalled s s2 d" if "(c, d) \<in> (children (heap s))\<^sup>*" for d
    using s1(3) that s2(2) by (blast intro: signalled_later)
  moreover have "signalled s s2 d" if "c' \<in> set cs" "(c', d) \<in> (children (heap s))\<^sup>*" for c' d
    using s2(3) that s1(2) by (auto simp: children_extends [OF s1(2)] intro: signalled_earlier)
  ultimately show ?case by auto
qed

lemma prepareToRunTest_signals:
  "flattened s \<Longrightarrow> N \<in> set (discoveredTests s) \<Longrightarrow> height_le n (heap s) N
   \<Longrightarrow> \<exists>s'. prepareToRunTest n s N = Some s' \<and> run_extends s s'
            \<and> (\<forall>d. (N, d) \<in> (children (heap s))\<^sup>* \<longrightarrow> signalled s s' d)"
proof (induction n arbitrary: s N)
  case 0
  then show ?case by simp
next
  case (Suc f)
  let ?s0 = "sendTestRunStarted s N"
  have ext0: "run_extends s ?s0"
    by (rule sendTestRunStarted_extends)
  have matched: "filter (\<lambda>test. key (heap s test) = key (heap s N)) (discoveredTests s) = [N]"
    using Suc.prems(1,2) by (intro filter_unique_key) (simp_all add: flattened_def)
  have kids: "nodes (heap ?s0 N) = nodes (heap s N)"
    using ext0 by (simp add: run_extends_def)
  have "flattened ?s0"
    using ext0 Suc.prems(1) by (rule flattened_extends)
  moreover have "set (nodes (heap s N)) \<subseteq> set (discoveredTests ?s0)"
    using Suc.prems(1,2) ext0 by (auto simp: flattened_def run_extends_def)
  moreover have "\<forall>c\<in>set (nodes (heap s N)). height_le f (heap ?s0) c"
    using Suc.prems(3) by (simp add: height_le_extends [OF ext0])
  ultimately obtain s1 where s1:
    "forEach_child f ?s0 (nodes (heap s N)) = Some s1" "run_extends ?s0 s1"
    "\<forall>c\<in>set (nodes (heap s N)). \<forall>d. (c, d) \<in> (children (heap ?s0))\<^sup>* \<longrightarrow> signalled ?s0 s1 d"
    using forEach_child_signals [of f ?s0 "nodes (heap s N)", OF Suc.IH] by blast
  have "prepareToRunTest (Suc f) s N = Some s1"
    using matched kids s1(1) by simp
  moreover have ext: "run_extends s s1"
    using ext0 s1(2) by (rule run_extends_trans)
  moreover have "signalled s s1 d" if d: "(N, d) \<in> (children (heap s))\<^sup>*" for d
  proof (cases "d = N")
    case True
    show ?thesis
      unfolding True
      using sendTestRunStarted_signalled s1(2) by (rule signalled_later)
  next
    case False
    with d obtain c where c: "(N, c) \<in> children (heap s)" "(c, d) \<in> (children (heap s))\<^sup>*"
      by (auto elim: converse_rtranclE)
    then have "c \<in> set (nodes (heap s N))"
      by (simp add: children_def)
    with s1(3) c(2) have "signalled ?s0 s1 d"
      by (simp add: children_extends [OF ext0])
    with ext0 show ?thesis
      by (rule signalled_earlier)
  qed
  ultimately show ?case by blast
qed

text \<open>
  Claim C6. Let the discovered list be the flattening of the outline, \<open>N\<close> one of its nodes
  and \<open>n\<close> a bound on the height of the subtree of \<open>N\<close>. Then \<open>prepareToRunTest\<close> returns with
  fuel \<open>n\<close>, and for \<open>N\<close> and every descendant \<open>d\<close> of \<open>N\<close> it has sent the run-started signal
  for \<open>d\<close>, which has set \<open>running\<close> of \<open>d\<close> and fired an invalidation scoped to \<open>d\<close>.
\<close>
theorem prepareToRunTest_marks_subtree:
  assumes "flattened s" and "N \<in> set (discoveredTests s)" and "height_le n (heap s) N"
  shows "\<exists>s'. prepareToRunTest n s N = Some s'
           \<and> (\<forall>d. (N, d) \<in> (children (heap s))\<^sup>*
                 \<longrightarrow> running (heap s' d)
                     \<and> SendTestRunStarted d \<in> set (drop (length (effects s)) (effects s'))
                     \<and> TreeChanged (Some d) \<in> set (drop (length (effects s)) (effects s')))"
  using prepareToRunTest_signals [OF assms]
  by (auto simp: signalled_def)

text \<open>On the small suite: a run request for \<open>containerX\<close> reaches both of its specs.\<close>
theorem prepareToRunTest_marks_subtree_witness:
  "flattened example_discovered
   \<and> 1 \<in> set (discoveredTests example_discovered)
   \<and> height_le (Suc (Suc 0)) (heap example_discovered) 1
   \<and> (\<exists>s'. prepareToRunTest (Suc (Suc 0)) example_discovered 1 = Some s'
          \<and> running (heap s' 1) \<and> running (heap s' 2) \<and> running (heap s' 3)
          \<and> SendTestRunStarted 3 \<in> set (effects s'))"
proof -
  have d: "discoveredTests example_discovered = [0, 1, 2, 3]"
    and h: "heap example_discovered = example_heap"
    and e: "effects example_discovered = []"
    by (simp_all add: example_discovered_def onDicoveredTest_fields example_provider_def
        newProvider_def setUpdateOn_def setUpdateOnTypeDelay_def)
  have f: "flattened example_discovered"
    by (simp add: flattened_def d h example_heap_def example_node_def)
  have m: "1 \<in> set (discoveredTests example_discovered)"
    by (simp add: d)
  have b: "height_le (Suc (Suc 0)) (heap example_discovered) 1"
    by (simp add: h example_heap_def example_node_def)
  have c: "(1, 2) \<in> children (heap example_discovered)" "(1, 3) \<in> children (heap example_discovered)"
    by (simp_all add: children_def h example_heap_def example_node_def)
  from prepareToRunTest_marks_subtree [OF f m b] obtain s' where s':
    "prepareToRunTest (Suc (Suc 0)) example_discovered 1 = Some s'"
    "\<And>d. (1, d) \<in> (children (heap example_discovered))\<^sup>*
       \<Longrightarrow> running (heap s' d)
           \<and> SendTestRunStarted d \<in> set (drop (length (effects example_discovered)) (effects s'))"
    by blast
  from c have "(1, 1) \<in> (children (heap example_discovered))\<^sup>*"
    "(1, 2) \<in> (children (heap example_discovered))\<^sup>*"
    "(1, 3) \<in> (children (heap example_discovered))\<^sup>*"
    by auto
  from this [THEN s'(2)] s'(1) f m b show ?thesis
    by (auto simp: e)
qed

section \<open>Document events and the debounce timer\<close>

lemma advance_quiet:
  assumes "\<forall>p\<in>set (pending s). clock s + int n < snd p"
  shows "advance n s = s\<lparr>clock := clock s + int n\<rparr>"
proof -
  have "filter (\<lambda>p. snd p \<le> clock s + int n) (pending s) = []"
    using assms by (auto simp: filter_empty_conv)
  then show ?thesis by (simp add: advance_def)
qed

lemma advance_due:
  assumes "pending s = [(h, t)]" "t \<le> clock s + int n"
  shows "advance n s =
     s\<lparr>pending := [], effects := effects s @ [TreeChanged None], clock := clock s + int n\<rparr>"
  using assms by (simp add: advance_def fireTimer_def fire_def)

lemma onDocumentChanged_arms:
  assumes "editor s = Some ed" "uri (document ed) = uri (evt_document evt)"
    "contentChanges evt \<noteq> []" "timers_tracked s"
  shows "onDocumentChanged s evt =
     s\<lparr>roots := [], pending := [(nextTimer s, clock s + timeoutDelay (updateOnTypeDelay s))],
       nextTimer := Suc (nextTimer s), documentChangedTimer := Some (nextTimer s)\<rparr>"
proof (cases "documentChangedTimer s")
  case None
  then have "pending s = []"
    using assms(4) by (cases "pending s") (auto simp: timers_tracked_def)
  with None assms(1-3) show ?thesis
    by (simp add: onDocumentChanged_def isDocumentForActiveEditor_def setTimeout_def)
next
  case (Some h)
  then have "filter (\<lambda>p. fst p \<noteq> h) (pending s) = []"
    using assms(4) by (auto simp: timers_tracked_def filter_empty_conv)
  with Some assms(1-3) show ?thesis
    by (simp add: onDocumentChanged_def isDocumentForActiveEditor_def setTimeout_def
        clearTimeout_def)
qed

lemma armed_tracked: "armed s \<Longrightarrow> timers_tracked s"
  by (auto simp: armed_def timers_tracked_def)

lemma documentChanged_armed:
  assumes "updateListener s = Some onType" "editor s = Some ed"
    "uri (evt_document evt) = uri (document ed)" "contentChanges evt \<noteq> []" "timers_tracked s"
  shows "armed (documentChanged s evt) \<and> effects (documentChanged s evt) = effects s
       \<and> updateListener (documentChanged s evt) = Some onType
       \<and> editor (documentChanged s evt) = Some ed
       \<and> updateOnTypeDelay (documentChanged s evt) = updateOnTypeDelay s
       \<and> clock (documentChanged s evt) = clock s"
  using assms onDocumentChanged_arms [of s ed evt]
  by (simp add: documentChanged_def armed_def)

lemma advance_armed:
  assumes "armed s" "int n < timeoutDelay (updateOnTypeDelay s)"
  shows "advance n s = s\<lparr>clock := clock s + int n\<rparr>"
  using assms by (intro advance_quiet) (auto simp: armed_def)

lemma typing_armed:
  assumes "armed s" "updateListener s = Some onType" "editor s = Some ed"
    "\<forall>ge\<in>set burst. uri (evt_document (snd ge)) = uri (document ed)
        \<and> contentChanges (snd ge) \<noteq> [] \<and> int (fst ge) < timeoutDelay (updateOnTypeDelay s)"
  shows "armed (typing s burst) \<and> effects (typing s burst) = effects s
       \<and> updateOnTypeDelay (typing s burst) = updateOnTypeDelay s
       \<and> clock (typing s burst) = clock s + (\<Sum>ge\<leftarrow>burst. int (fst ge))"
  using assms
proof (induction burst arbitrary: s)
  case Nil
  then show ?case by simp
next
  case (Cons ge burst)
  let ?a = "advance (fst ge) s"
  have a: "?a = s\<lparr>clock := clock s + int (fst ge)\<rparr>"
    using Cons.prems(1,4) by (intro advance_armed) simp_all
  have tr: "timers_tracked ?a"
    using armed_tracked [OF Cons.prems(1)] by (simp add: a timers_tracked_def)
  let ?s = "documentChanged ?a (snd ge)"
  have d: "armed ?s \<and> effects ?s = effects ?a \<and> updateListener ?s = Some onType
       \<and> editor ?s = Some ed \<and> updateOnTypeDelay ?s = updateOnTypeDelay ?a
       \<and> clock ?s = clock ?a"
    by (rule documentChanged_armed) (use Cons.prems tr in \<open>simp_all add: a\<close>)
  have "armed (typing ?s burst) \<and> effects (typing ?s burst) = effects ?s
       \<and> updateOnTypeDelay (typing ?s burst) = updateOnTypeDelay ?s
       \<and> clock (typing ?s burst) = clock ?s + (\<Sum>ge\<leftarrow>burst. int (fst ge))"
    by (rule Cons.IH) (use d Cons.prems(4) in \<open>simp_all add: a\<close>)
  with d show ?case by (simp add: a)
qed

lemma armed_fires:
  assumes "armed s"
  shows "effects (advance n s) =
           (if timeoutDelay (updateOnTypeDelay s) \<le> int n then effects s @ [TreeChanged None] else effects s)"
    and "pending (advance n s) = (if timeoutDelay (updateOnTypeDelay s) \<le> int n then [] else pending s)"
proof -
  from assms obtain h where h: "pending s = [(h, clock s + timeoutDelay (updateOnTypeDelay s))]"
    by (auto simp: armed_def)
  show "effects (advance n s) =
           (if timeoutDelay (updateOnTypeDelay s) \<le> int n then effects s @ [TreeChanged None] else effects s)"
    using advance_due [OF h, of n] advance_armed [OF assms, of n] by auto
  show "pending (advance n s) = (if timeoutDelay (updateOnTypeDelay s) \<le> int n then [] else pending s)"
    using advance_due [OF h, of n] advance_armed [OF assms, of n] by auto
qed

lemma fireTimer_effects:
  "effects (foldl fireTimer s ps) = effects s @ replicate (length ps) (TreeChanged None)"
proof (induction ps arbitrary: s)
  case Nil
  show ?case by simp
next
  case (Cons p ps)
  have "effects (fireTimer s p) = effects s @ [TreeChanged None]"
    by (simp add: fireTimer_def fire_def)
  with Cons [of "fireTimer s p"] show ?case
    by (simp add: replicate_app_Cons_same)
qed

lemma advance_effects:
  "effects (advance n s) =
     effects s @ replicate (length (filter (\<lambda>p. snd p \<le> clock s + int n) (pending s)))
                   (TreeChanged None)"
  by (simp add: advance_def fireTimer_effects)

lemma documentChanged_ignored:
  "contentChanges evt = [] \<Longrightarrow> documentChanged s evt = s"
  by (simp add: documentChanged_def onDocumentChanged_def)

lemma timeoutDelay_in_range:
  "1 \<le> d \<Longrightarrow> d \<le> 2147483647 \<Longrightarrow> timeoutDelay d = d"
  by (simp add: timeoutDelay_def)

lemma newProvider_tracked: "timers_tracked (newProvider e u d t h now)"
  by (simp add: timers_tracked_def newProvider_def setUpdateOn_def setUpdateOnTypeDelay_def)

lemma fireTimer_fold:
  "pending (foldl fireTimer s ps) = filter (\<lambda>q. fst q \<notin> fst ` set ps) (pending s)
   \<and> documentChangedTimer (foldl fireTimer s ps) = documentChangedTimer s"
proof (induction ps arbitrary: s)
  case Nil
  show ?case by simp
next
  case (Cons p ps)
  have "pending (fireTimer s p) = filter (\<lambda>q. fst q \<noteq> fst p) (pending s)"
    "documentChangedTimer (fireTimer s p) = documentChangedTimer s"
    by (simp_all add: fireTimer_def fire_def)
  with Cons [of "fireTimer s p"] show ?case
    by (auto intro: filter_cong)
qed

lemma advance_tracked:
  assumes "timers_tracked s"
  shows "timers_tracked (advance n s)"
  using assms by (simp add: timers_tracked_def advance_def fireTimer_fold)

lemma onDocumentChanged_tracked:
  assumes "timers_tracked s"
  shows "timers_tracked (onDocumentChanged s evt)"
proof (cases "isDocumentForActiveEditor s (evt_document evt) \<and> contentChanges evt \<noteq> []")
  case False
  with assms show ?thesis
    by (auto simp: onDocumentChanged_def)
next
  case True
  then obtain ed where "editor s = Some ed" "uri (document ed) = uri (evt_document evt)"
    by (auto simp: isDocumentForActiveEditor_def split: option.splits)
  with True assms show ?thesis
    by (simp add: onDocumentChanged_arms timers_tracked_def)
qed

lemma onActiveEditorChanged_tracked:
  assumes "timers_tracked s"
  shows "timers_tracked (onActiveEditorChanged s e)"
  using assms by (auto simp: timers_tracked_def onActiveEditorChanged_def fire_def split: option.splits)

text \<open>
  Claim C3, amended. The listener of the mode \<open>onType\<close> is registered and a burst of
  document-changed events arrives, each for the document of the tracked editor, each with
  at least one content change, and each after the first less than the delay after the one
  before it. The delay is the one the timer really gets, \<open>timeoutDelay d\<close> for the
  configured \<open>d\<close>, which is \<open>d\<close> itself when \<open>d\<close> is between \<open>1\<close> and \<open>2147483647\<close>.
  During the burst no signal is fired and exactly one timer is pending after every event.
  After the last event, no signal is fired before the delay has passed, and once it has
  passed exactly one unscoped tree-changed signal has been fired and no timer is pending.
  A document-changed event without content changes leaves the state as it is.
\<close>
theorem typing_debounced:
  assumes "updateListener s = Some onType" and "editor s = Some ed" and "timers_tracked s"
    and "uri (evt_document e0) = uri (document ed) \<and> contentChanges e0 \<noteq> []"
    and "\<forall>ge\<in>set burst. uri (evt_document (snd ge)) = uri (document ed)
           \<and> contentChanges (snd ge) \<noteq> []
           \<and> int (fst ge) < timeoutDelay (updateOnTypeDelay s)"
  shows "effects (typing (documentChanged s e0) burst) = effects s
       \<and> clock (typing (documentChanged s e0) burst) = clock s + (\<Sum>ge\<leftarrow>burst. int (fst ge))
       \<and> (\<forall>k. length (pending (typing (documentChanged s e0) (take k burst))) = 1)
       \<and> (\<forall>n. effects (advance n (typing (documentChanged s e0) burst)) =
                (if timeoutDelay (updateOnTypeDelay s) \<le> int n
                 then effects s @ [TreeChanged None]
                 else effects s))
       \<and> (\<forall>n. timeoutDelay (updateOnTypeDelay s) \<le> int n
                \<longrightarrow> pending (advance n (typing (documentChanged s e0) burst)) = [])
       \<and> (1 \<le> updateOnTypeDelay s \<and> updateOnTypeDelay s \<le> 2147483647
            \<longrightarrow> timeoutDelay (updateOnTypeDelay s) = updateOnTypeDelay s)
       \<and> (contentChanges evt = [] \<longrightarrow> documentChanged s evt = s)"
proof -
  let ?s0 = "documentChanged s e0"
  have s0: "armed ?s0 \<and> effects ?s0 = effects s \<and> updateListener ?s0 = Some onType
       \<and> editor ?s0 = Some ed \<and> updateOnTypeDelay ?s0 = updateOnTypeDelay s
       \<and> clock ?s0 = clock s"
    by (rule documentChanged_armed) (use assms in simp_all)
  have run: "armed (typing ?s0 b) \<and> effects (typing ?s0 b) = effects ?s0
       \<and> updateOnTypeDelay (typing ?s0 b) = updateOnTypeDelay ?s0
       \<and> clock (typing ?s0 b) = clock ?s0 + (\<Sum>ge\<leftarrow>b. int (fst ge))"
    if "set b \<subseteq> set burst" for b
    by (rule typing_armed [of ?s0 ed b]) (use s0 assms(5) that in auto)
  have one: "length (pending (typing ?s0 (take k burst))) = 1" for k
  proof -
    have "set (take k burst) \<subseteq> set burst"
      by (rule set_take_subset)
    from run [OF this] show ?thesis
      by (auto simp: armed_def)
  qed
  have range: "timeoutDelay (updateOnTypeDelay s) = updateOnTypeDelay s"
    if "1 \<le> updateOnTypeDelay s \<and> updateOnTypeDelay s \<le> 2147483647"
    using that by (simp add: timeoutDelay_in_range)
  have ignored: "documentChanged s evt = s" if "contentChanges evt = []"
    using that by (rule documentChanged_ignored)
  from run [of burst] s0 armed_fires [of "typing ?s0 burst"] one range ignored show ?thesis
    by simp
qed

text \<open>
  Three events at the times \<open>1000\<close>, \<open>1100\<close> and \<open>1350\<close> with a delay of \<open>300\<close>: nothing
  \<open>299\<close> milliseconds after the last event, one signal \<open>300\<close> milliseconds after it.
\<close>
theorem typing_debounced_witness:
  "updateListener example_provider = Some onType
   \<and> editor example_provider = Some example_editor
   \<and> timers_tracked example_provider
   \<and> updateOnTypeDelay example_provider = 300
   \<and> timeoutDelay (updateOnTypeDelay example_provider) = 300
   \<and> clock (typing (documentChanged example_provider example_change)
               [(100, example_change), (250, example_change)]) = 1350
   \<and> effects (advance 299 (typing (documentChanged example_provider example_change)
               [(100, example_change), (250, example_change)])) = []
   \<and> effects (advance 300 (typing (documentChanged example_provider example_change)
               [(100, example_change), (250, example_change)])) = [TreeChanged None]
   \<and> pending (advance 300 (typing (documentChanged example_provider example_change)
               [(100, example_change), (250, example_change)])) = []
   \<and> contentChanges example_empty_change = []
   \<and> documentChanged example_provider example_empty_change = example_provider"
proof -
  have p: "updateListener example_provider = Some onType"
    "editor example_provider = Some example_editor"
    "timers_tracked example_provider"
    "updateOnTypeDelay example_provider = 300"
    "clock example_provider = 1000"
    "effects example_provider = []"
    by (simp_all add: example_provider_def newProvider_def setUpdateOn_def
        setUpdateOnTypeDelay_def timers_tracked_def)
  have e0: "uri (evt_document example_change) = uri (document example_editor)
      \<and> contentChanges example_change \<noteq> []"
    by (simp add: example_change_def example_editor_def)
  have b: "\<forall>ge\<in>set [(100, example_change), (250, example_change)].
      uri (evt_document (snd ge)) = uri (document example_editor)
      \<and> contentChanges (snd ge) \<noteq> []
      \<and> int (fst ge) < timeoutDelay (updateOnTypeDelay example_provider)"
    by (simp add: example_change_def example_editor_def p timeoutDelay_def)
  have c: "contentChanges example_empty_change = []"
    by (simp add: example_empty_change_def)
  from typing_debounced [OF p(1) p(2) p(3) e0 b, of example_empty_change] p c show ?thesis
    by simp
qed

text \<open>
  As stated for every document-changed event of the tracked document and every delay, the
  claim fails: an event without content changes returns at the guard on
  \<^verbatim>\<open>contentChanges.length\<close>, sets no timer and is followed by no signal; and with a
  configured delay of \<open>2147483648\<close> the signal is fired one millisecond after the edit.
\<close>
theorem typing_without_changes_silent:
  "updateListener example_provider = Some onType
   \<and> isDocumentForActiveEditor example_provider (evt_document example_empty_change)
   \<and> pending (documentChanged example_provider example_empty_change) = []
   \<and> effects (advance 300 (documentChanged example_provider example_empty_change)) = []
   \<and> effects (advance 100000 (documentChanged example_provider example_empty_change)) = []
   \<and> updateOnTypeDelay example_long_delay = 2147483648
   \<and> effects (advance 1 (documentChanged example_long_delay example_change))
       = [TreeChanged None]"
  by (simp add: example_provider_def example_long_delay_def newProvider_def setUpdateOn_def
      setUpdateOnTypeDelay_def documentChanged_def onDocumentChanged_def
      isDocumentForActiveEditor_def example_editor_def example_empty_change_def
      example_change_def example_document_def advance_def setTimeout_def timeoutDelay_def
      fireTimer_def fire_def)

section \<open>Change of the active editor\<close>

text \<open>
  Claim C5, amended. An active-editor-changed event to \<^verbatim>\<open>undefined\<close> or to a main editor
  replaces the tracked editor, empties the cached outline and fires one unscoped
  tree-changed signal; an event to an editor that is not a main editor leaves the state
  as it is. In neither case is a pending timer touched: it stays pending and is still
  held in \<open>documentChangedTimer\<close>, and every timer that is pending at the event, whenever
  it is due, fires its own tree-changed signal when it falls due.
\<close>
theorem onActiveEditorChanged_refreshes:
  "(e = None \<or> (\<exists>ed. e = Some ed \<and> isMainEditor ed) \<longrightarrow>
      onActiveEditorChanged s e =
        s\<lparr>editor := e, roots := [], effects := effects s @ [TreeChanged None]\<rparr>
      \<and> (\<forall>n. effects (advance n (onActiveEditorChanged s e)) =
                effects s @ [TreeChanged None]
                  @ replicate (length (filter (\<lambda>p. snd p \<le> clock s + int n) (pending s)))
                      (TreeChanged None))
      \<and> (\<forall>h t n. pending s = [(h, t)] \<longrightarrow>
             effects (advance n (onActiveEditorChanged s e)) =
               effects s @ [TreeChanged None]
                 @ (if t \<le> clock s + int n then [TreeChanged None] else [])))
   \<and> (\<forall>ed. e = Some ed \<and> \<not> isMainEditor ed \<longrightarrow> onActiveEditorChanged s e = s)
   \<and> pending (onActiveEditorChanged s e) = pending s
   \<and> documentChangedTimer (onActiveEditorChanged s e) = documentChangedTimer s"
proof -
  let ?s' = "s\<lparr>editor := e, roots := [], effects := effects s @ [TreeChanged None]\<rparr>"
  have switch: "onActiveEditorChanged s e = ?s'"
    if "e = None \<or> (\<exists>ed. e = Some ed \<and> isMainEditor ed)"
    using that by (auto simp: onActiveEditorChanged_def fire_def)
  have ignore: "onActiveEditorChanged s e = s" if "e = Some ed" "\<not> isMainEditor ed" for ed
    using that by (simp add: onActiveEditorChanged_def)
  have later: "effects (advance n (onActiveEditorChanged s e)) =
                effects s @ [TreeChanged None]
                  @ replicate (length (filter (\<lambda>p. snd p \<le> clock s + int n) (pending s)))
                      (TreeChanged None)"
    if g: "e = None \<or> (\<exists>ed. e = Some ed \<and> isMainEditor ed)" for n
    unfolding switch [OF g] by (simp add: advance_effects)
  have single: "effects (advance n (onActiveEditorChanged s e)) =
               effects s @ [TreeChanged None]
                 @ (if t \<le> clock s + int n then [TreeChanged None] else [])"
    if g: "e = None \<or> (\<exists>ed. e = Some ed \<and> isMainEditor ed)" and p: "pending s = [(h, t)]"
    for h t n
    using later [OF g, of n] by (simp add: p)
  have kept: "pending (onActiveEditorChanged s e) = pending s
      \<and> documentChangedTimer (onActiveEditorChanged s e) = documentChangedTimer s"
    by (auto simp: onActiveEditorChanged_def fire_def split: option.splits)
  show ?thesis
    using switch ignore later single kept by auto
qed

text \<open>
  On the small suite: an edit at \<open>1000\<close>, a change of editor at \<open>1050\<close>; the timer of the
  edit is due at \<open>1300\<close> and fires then.
\<close>
theorem onActiveEditorChanged_refreshes_witness:
  "isMainEditor example_editor
   \<and> pending (advance 50 example_typing) = [(0, 1300)]
   \<and> clock (advance 50 example_typing) = 1050
   \<and> \<not> armed (advance 50 example_typing)
   \<and> roots (onActiveEditorChanged (advance 50 example_typing) (Some example_editor)) = []
   \<and> effects (onActiveEditorChanged (advance 50 example_typing) (Some example_editor))
       = [TreeChanged None]
   \<and> pending (onActiveEditorChanged (advance 50 example_typing) (Some example_editor))
       = [(0, 1300)]
   \<and> effects (advance 249
        (onActiveEditorChanged (advance 50 example_typing) (Some example_editor)))
       = [TreeChanged None]
   \<and> effects (advance 250
        (onActiveEditorChanged (advance 50 example_typing) (Some example_editor)))
       = [TreeChanged None, TreeChanged None]
   \<and> \<not> isMainEditor (example_editor\<lparr>viewColumn := None\<rparr>)
   \<and> onActiveEditorChanged (advance 50 example_typing)
         (Some (example_editor\<lparr>viewColumn := None\<rparr>))
       = advance 50 example_typing"
proof -
  have m: "isMainEditor example_editor" "\<not> isMainEditor (example_editor\<lparr>viewColumn := None\<rparr>)"
    by (simp_all add: isMainEditor_def example_editor_def)
  define s where "s = advance 50 example_typing"
  have p: "pending s = [(0, 1300)]" "effects s = []" "clock s = 1050"
    "updateOnTypeDelay s = 300"
    by (simp_all add: s_def advance_def example_typing_def example_provider_def newProvider_def
        setUpdateOn_def setUpdateOnTypeDelay_def documentChanged_def onDocumentChanged_def
        isDocumentForActiveEditor_def example_editor_def example_change_def example_document_def
        setTimeout_def timeoutDelay_def)
  have na: "\<not> armed s"
    by (simp add: armed_def p timeoutDelay_def)
  note t1 = onActiveEditorChanged_refreshes [of "Some example_editor" s]
  note t2 = onActiveEditorChanged_refreshes [of "Some (example_editor\<lparr>viewColumn := None\<rparr>)" s]
  from t1 m(1) p(1) have later:
    "effects (advance n (onActiveEditorChanged s (Some example_editor))) =
       effects s @ [TreeChanged None]
         @ (if 1300 \<le> clock s + int n then [TreeChanged None] else [])" for n
    by blast
  from m p na t1 t2 later [of 249] later [of 250] show ?thesis
    unfolding s_def [symmetric] by simp
qed

text \<open>
  As stated, the claim fails: the timer set by an edit is still pending after the event
  (there is no \<^verbatim>\<open>clearTimeout\<close> in \<open>onActiveEditorChanged\<close>), and it fires a second
  tree-changed signal when it falls due.
\<close>
theorem onActiveEditorChanged_keeps_timer:
  "pending example_typing = [(0, 1300)]
   \<and> pending (onActiveEditorChanged example_typing None) = [(0, 1300)]
   \<and> documentChangedTimer (onActiveEditorChanged example_typing None) = Some 0
   \<and> effects (advance 300 (onActiveEditorChanged example_typing None))
       = [TreeChanged None, TreeChanged None]"
  by (simp add: example_typing_def example_provider_def newProvider_def setUpdateOn_def
        setUpdateOnTypeDelay_def documentChanged_def onDocumentChanged_def
        isDocumentForActiveEditor_def example_editor_def example_change_def example_document_def
        setTimeout_def timeoutDelay_def onActiveEditorChanged_def fire_def advance_def
        fireTimer_def)

section \<open>Reading the tree when the parser fails\<close>

text \<open>
  Claim C9. An editor of the Go language is tracked, the cached outline is empty and the
  outline parser fails. Then the read returns \<open>None\<close> (\<^verbatim>\<open>undefined\<close>), whichever element it
  was asked for; the cached outline is still empty; the only effects are the line in the
  output channel and the error message with the button \<^verbatim>\<open>Open Log\<close>, which shows the
  output channel when it is chosen. The parser's error is a value caught inside the read:
  the read has no other outcome than the pair it returns.
\<close>
theorem getChildren_parse_failure:
  assumes "editor s = Some ed" and "languageId (document ed) = goLanguage" and "roots s = []"
    and "outlineFromDoc (document ed) = Inl err"
  shows "getChildren outlineFromDoc goLanguage s element =
     (None, s\<lparr>effects := effects s @
         [OutputAppendLine (''Could not populate the outline view: '' @ err),
          ShowErrorMessage ''Could not populate the outline view'' [''Open Log'']]\<rparr>)
     \<and> roots (snd (getChildren outlineFromDoc goLanguage s element)) = []
     \<and> effects (onErrorMessageAction (snd (getChildren outlineFromDoc goLanguage s element))
                  (Some ''Open Log''))
         = effects (snd (getChildren outlineFromDoc goLanguage s element)) @ [OutputShow]"
  using assms
  by (simp add: getChildren_def parseFailed_def emit_def onErrorMessageAction_def)

text \<open>On the small suite, with a parser that always fails.\<close>
theorem getChildren_parse_failure_witness:
  "editor example_provider = Some example_editor
   \<and> languageId (document example_editor) = ''go''
   \<and> roots example_provider = []
   \<and> example_failing_parser (document example_editor) = Inl ''exit status 1''
   \<and> fst (getChildren example_failing_parser ''go'' example_provider None) = None
   \<and> roots (snd (getChildren example_failing_parser ''go'' example_provider None)) = []
   \<and> effects (snd (getChildren example_failing_parser ''go'' example_provider None))
       = [OutputAppendLine ''Could not populate the outline view: exit status 1'',
          ShowErrorMessage ''Could not populate the outline view'' [''Open Log'']]"
proof -
  have h: "editor example_provider = Some example_editor"
    "languageId (document example_editor) = ''go''"
    "roots example_provider = []"
    "example_failing_parser (document example_editor) = Inl ''exit status 1''"
    by (simp_all add: example_provider_def newProvider_def setUpdateOn_def
        setUpdateOnTypeDelay_def example_editor_def example_document_def
        example_failing_parser_def)
  have "effects example_provider = []"
    by (simp add: example_provider_def newProvider_def setUpdateOn_def setUpdateOnTypeDelay_def)
  with h getChildren_parse_failure [of example_provider example_editor "''go''"
      example_failing_parser "''exit status 1''" None]
  show ?thesis
    by simp
qed

section \<open>Clicks on tree items\<close>

text \<open>
  Claim C4, amended. An editor is tracked, and the time recorded for the previous click,
  if there is one, is not \<open>0\<close>. Then a click on \<open>el\<close> at the time \<open>clock s\<close> records \<open>el\<close> and
  that time, and is a double click (selection moved to the start of the node, highlight
  turned off, focus given to the editor group) exactly when a previous click is recorded,
  its node has the start and the end of \<open>el\<close>, and less than \<open>doubleClickThreshold\<close> has
  passed since; otherwise it is a single click (the node is highlighted, nothing else).
\<close>
theorem clickTreeItem_disambiguates:
  assumes "editor s = Some ed" and "lastClickedTime s \<noteq> Some 0"
  shows "clickTreeItem s el =
     s\<lparr>lastClickedTime := Some (clock s), lastClickedNode := Some el,
       effects := effects s @
         (if (\<exists>l t. lastClickedNode s = Some l \<and> lastClickedTime s = Some t
                \<and> start (heap s l) = start (heap s el) \<and> node_end (heap s l) = node_end (heap s el)
                \<and> clock s - t < doubleClickThreshold s)
          then [SetSelectionToNodeStart ed el, HighlightOff ed,
                ExecuteCommand ''workbench.action.focusActiveEditorGroup'']
          else [HighlightNode ed el])\<rparr>"
  using assms
  by (auto simp: clickTreeItem_def wasRecentlyClicked_def emit_def Let_def split: option.splits)

text \<open>
  On the small suite with a threshold of \<open>400\<close>: a click on \<open>specA\<close>, then after \<open>300\<close> a
  click on another object with the same span (a double click), on \<open>specB\<close> (a single click),
  or after \<open>400\<close> on \<open>specA\<close> again (a single click: the threshold is strict).
\<close>
theorem clickTreeItem_disambiguates_witness:
  "editor example_provider = Some example_editor
   \<and> lastClickedTime example_provider \<noteq> Some 0
   \<and> effects (clickTreeItem example_provider 2) = [HighlightNode example_editor 2]
   \<and> effects (clickTreeItem (advance 300 (clickTreeItem example_provider 2)) 5)
       = [HighlightNode example_editor 2, SetSelectionToNodeStart example_editor 5,
          HighlightOff example_editor, ExecuteCommand ''workbench.action.focusActiveEditorGroup'']
   \<and> effects (clickTreeItem (advance 300 (clickTreeItem example_provider 2)) 3)
       = [HighlightNode example_editor 2, HighlightNode example_editor 3]
   \<and> effects (clickTreeItem (advance 400 (clickTreeItem example_provider 2)) 2)
       = [HighlightNode example_editor 2, HighlightNode example_editor 2]
   \<and> lastClickedNode (clickTreeItem (advance 300 (clickTreeItem example_provider 2)) 3) = Some 3
   \<and> lastClickedTime (clickTreeItem (advance 300 (clickTreeItem example_provider 2)) 3) = Some 1300"
proof -
  have e: "editor example_provider = Some example_editor"
    and z: "lastClickedTime example_provider \<noteq> Some 0"
    by (simp_all add: example_provider_def newProvider_def setUpdateOn_def
        setUpdateOnTypeDelay_def)
  define s1 where "s1 = clickTreeItem example_provider 2"
  have s1: "s1 = example_provider\<lparr>lastClickedTime := Some 1000, lastClickedNode := Some 2,
       effects := [HighlightNode example_editor 2]\<rparr>"
    unfolding s1_def using clickTreeItem_disambiguates [OF e z, of 2]
    by (simp add: example_provider_def newProvider_def setUpdateOn_def setUpdateOnTypeDelay_def)
  have a: "advance n s1 = s1\<lparr>clock := 1000 + int n\<rparr>" for n
    by (simp add: s1 advance_def example_provider_def newProvider_def setUpdateOn_def
        setUpdateOnTypeDelay_def)
  have e2: "editor (advance n s1) = Some example_editor" for n
    unfolding a by (simp add: s1 e)
  have z2: "lastClickedTime (advance n s1) \<noteq> Some 0" for n
    unfolding a by (simp add: s1)
  have "effects (clickTreeItem (advance 300 s1) 5)
       = [HighlightNode example_editor 2, SetSelectionToNodeStart example_editor 5,
          HighlightOff example_editor, ExecuteCommand ''workbench.action.focusActiveEditorGroup'']"
    using clickTreeItem_disambiguates [OF e2 z2, of 300 5] unfolding a
    by (simp add: s1 example_provider_def newProvider_def setUpdateOn_def
        setUpdateOnTypeDelay_def example_heap_def example_node_def)
  moreover have "clickTreeItem (advance 300 s1) 3
       = s1\<lparr>clock := 1300, lastClickedTime := Some 1300, lastClickedNode := Some 3,
            effects := [HighlightNode example_editor 2, HighlightNode example_editor 3]\<rparr>"
    using clickTreeItem_disambiguates [OF e2 z2, of 300 3] unfolding a
    by (simp add: s1 example_provider_def newProvider_def setUpdateOn_def
        setUpdateOnTypeDelay_def example_heap_def example_node_def)
  moreover have "effects (clickTreeItem (advance 400 s1) 2)
       = [HighlightNode example_editor 2, HighlightNode example_editor 2]"
    using clickTreeItem_disambiguates [OF e2 z2, of 400 2] unfolding a
    by (simp add: s1 example_provider_def newProvider_def setUpdateOn_def
        setUpdateOnTypeDelay_def example_heap_def example_node_def)
  moreover have "effects s1 = [HighlightNode example_editor 2]"
    by (simp add: s1)
  ultimately show ?thesis
    using e z unfolding s1_def by simp
qed

text \<open>
  As stated for every click, the claim fails: without a tracked editor the click is neither
  a single nor a double click, and it is not recorded.
\<close>
theorem clickTreeItem_ignored_without_editor:
  "editor example_noeditor = None
   \<and> lastClickedNode (clickTreeItem example_noeditor 2) = None
   \<and> lastClickedTime (clickTreeItem example_noeditor 2) = None
   \<and> effects (clickTreeItem example_noeditor 2) = []"
  by (simp add: clickTreeItem_def example_noeditor_def newProvider_def setUpdateOn_def
      setUpdateOnTypeDelay_def)

text \<open>
  Claim C10. Without a tracked editor a click returns at once: the state is unchanged, so
  the last click and its time are kept and nothing is emitted, and a later click, after
  an editor has become active, is handled exactly as if the ignored click had not
  happened.
\<close>
theorem clickTreeItem_no_editor:
  assumes "editor s = None"
  shows "clickTreeItem s el = s
     \<and> clickTreeItem (onActiveEditorChanged (clickTreeItem s el) e) el'
         = clickTreeItem (onActiveEditorChanged s e) el'"
  using assms by (simp add: clickTreeItem_def)

text \<open>On the small suite, constructed while no editor is active.\<close>
theorem clickTreeItem_no_editor_witness:
  "editor example_noeditor = None
   \<and> lastClickedNode (clickTreeItem example_noeditor 1) = None
   \<and> lastClickedTime (clickTreeItem example_noeditor 1) = None
   \<and> effects (clickTreeItem example_noeditor 1) = []"
proof -
  have h: "editor example_noeditor = None"
    by (simp add: example_noeditor_def newProvider_def setUpdateOn_def setUpdateOnTypeDelay_def)
  have "clickTreeItem example_noeditor 1 = example_noeditor"
    using clickTreeItem_no_editor [OF h, of 1] by simp
  with h show ?thesis
    by (simp add: example_noeditor_def newProvider_def setUpdateOn_def setUpdateOnTypeDelay_def)
qed

end
